theory Spec2Isabelle
  imports Main
begin

section \<open>Data structures\<close>

text \<open>
  \<^verbatim>\<open>struct Command\<close> of \<^verbatim>\<open>minishell_windows_full.cpp\<close>: the arguments, the two
  redirection file names (the empty string means "not set"), the append flag and the
  background flag. The default constructor leaves the strings and the vector empty and
  both flags false.
\<close>

record Command =
  args :: "string list"
  input_file :: string
  output_file :: string
  append_output :: bool
  background :: bool

definition Command0 :: Command where
  "Command0 = \<lparr>args = [], input_file = [], output_file = [],
               append_output = False, background = False\<rparr>"

section \<open>Parsing\<close>

text \<open>
  \<^verbatim>\<open>iss >> token\<close> skips white space and reads up to the next white space. White
  space is what \<^verbatim>\<open>isspace\<close> accepts in the C locale: space, \<^verbatim>\<open>\t \n \v \f \r\<close>
  (the bytes 32 and 9 to 13).
\<close>

definition is_space :: "char \<Rightarrow> bool" where
  "is_space c = (of_char c = (32::nat) \<or> (9 \<le> (of_char c :: nat) \<and> (of_char c :: nat) \<le> 13))"

text \<open>The token under construction is \<open>cur\<close>; it is emitted when white space or the end
  of the line is reached, unless it is empty.\<close>

fun split_ws :: "string \<Rightarrow> string \<Rightarrow> string list" where
  "split_ws cur [] = (if cur = [] then [] else [cur])"
| "split_ws cur (c # cs) =
     (if is_space c then (if cur = [] then split_ws [] cs else cur # split_ws [] cs)
      else split_ws (cur @ [c]) cs)"

definition tokenize :: "string \<Rightarrow> string list" where
  "tokenize input = split_ws [] input"

text \<open>The local variables of \<^verbatim>\<open>parse_input\<close>: the stages pushed so far, the stage
  under construction and the two pending-redirection flags.\<close>

record pstate =
  commands :: "Command list"
  current_cmd :: Command
  expect_input_file :: bool
  expect_output_file :: bool

definition pstate0 :: pstate where
  "pstate0 = \<lparr>commands = [], current_cmd = Command0,
              expect_input_file = False, expect_output_file = False\<rparr>"

text \<open>One iteration of the \<^verbatim>\<open>while (iss >> token)\<close> loop, in the order of the
  source's \<^verbatim>\<open>if\<close>/\<^verbatim>\<open>else if\<close> chain.\<close>

definition parse_step :: "pstate \<Rightarrow> string \<Rightarrow> pstate" where
  "parse_step st token =
     (if token = ''|'' then
        (if args (current_cmd st) \<noteq> []
         then st\<lparr>commands := commands st @ [current_cmd st], current_cmd := Command0\<rparr>
         else st)
      else if token = ''<'' then st\<lparr>expect_input_file := True\<rparr>
      else if token = ''>'' then
        st\<lparr>expect_output_file := True,
           current_cmd := (current_cmd st)\<lparr>append_output := False\<rparr>\<rparr>
      else if token = ''>>'' then
        st\<lparr>expect_output_file := True,
           current_cmd := (current_cmd st)\<lparr>append_output := True\<rparr>\<rparr>
      else if token = ''&'' then
        st\<lparr>current_cmd := (current_cmd st)\<lparr>background := True\<rparr>\<rparr>
      else if expect_input_file st then
        st\<lparr>current_cmd := (current_cmd st)\<lparr>input_file := token\<rparr>,
           expect_input_file := False\<rparr>
      else if expect_output_file st then
        st\<lparr>current_cmd := (current_cmd st)\<lparr>output_file := token\<rparr>,
           expect_output_file := False\<rparr>
      else st\<lparr>current_cmd := (current_cmd st)\<lparr>args := args (current_cmd st) @ [token]\<rparr>\<rparr>)"

definition parse_tokens :: "pstate \<Rightarrow> string list \<Rightarrow> pstate" where
  "parse_tokens st ts = foldl parse_step st ts"

text \<open>After the loop the stage under construction is pushed if it has an argument.\<close>

definition parse_finish :: "pstate \<Rightarrow> Command list" where
  "parse_finish st =
     (if args (current_cmd st) \<noteq> [] then commands st @ [current_cmd st] else commands st)"

definition parse_input :: "string \<Rightarrow> Command list" where
  "parse_input input = parse_finish (parse_tokens pstate0 (tokenize input))"

text \<open>The five operator tokens; every other token is a plain token.\<close>

definition is_operator :: "string \<Rightarrow> bool" where
  "is_operator t = (t = ''|'' \<or> t = ''<'' \<or> t = ''>'' \<or> t = ''>>'' \<or> t = ''&'')"


section \<open>Text output\<close>

text \<open>\<^verbatim>\<open>"\n"\<close> and the double quote, which a string literal cannot hold.\<close>

definition nl :: string where
  "nl = [CHR 0x0A]"

definition dquote :: string where
  "dquote = [CHR 0x22]"

text \<open>What \<^verbatim>\<open>operator<<\<close> prints for an unsigned and for a signed integer: the decimal
  digits, with a leading minus sign for a negative number.\<close>

definition digit_char :: "nat \<Rightarrow> char" where
  "digit_char d = ''0123456789'' ! d"

function show_nat :: "nat \<Rightarrow> string" where
  "show_nat n = (if n < 10 then [digit_char n] else show_nat (n div 10) @ [digit_char (n mod 10)])"
  by pat_completeness auto
termination
  by (relation "measure id") auto

declare show_nat.simps [simp del]

definition show_int :: "int \<Rightarrow> string" where
  "show_int i = (if i < 0 then ''-'' @ show_nat (nat (- i)) else show_nat (nat i))"

section \<open>\<^verbatim>\<open>std::stoi\<close>\<close>

text \<open>
  \<^verbatim>\<open>std::stoi(str)\<close> calls \<^verbatim>\<open>strtol\<close> in base 10: leading white space is skipped, one
  optional sign is read, then the longest run of decimal digits. With no digit it throws
  \<^verbatim>\<open>std::invalid_argument\<close>; with a value outside the range of \<^verbatim>\<open>int\<close> it throws
  \<^verbatim>\<open>std::out_of_range\<close>. Whatever follows the digits is not looked at (the source
  passes no \<^verbatim>\<open>pos\<close> argument).
\<close>

datatype stoi_error = invalid_argument | out_of_range

definition INT_MAX :: int where
  "INT_MAX = 2147483647"

definition INT_MIN :: int where
  "INT_MIN = - 2147483648"

text \<open>The arithmetic of a 32-bit \<^verbatim>\<open>int\<close>: a result outside the range from \<^verbatim>\<open>INT_MIN\<close> to
  \<^verbatim>\<open>INT_MAX\<close> wraps around (two's complement).\<close>

definition int32 :: "int \<Rightarrow> int" where
  "int32 x = (x + 2147483648) mod 4294967296 - 2147483648"

definition is_digit :: "char \<Rightarrow> bool" where
  "is_digit c = (48 \<le> (of_char c :: nat) \<and> (of_char c :: nat) \<le> 57)"

definition digits_value :: "string \<Rightarrow> int" where
  "digits_value ds = foldl (\<lambda>acc c. 10 * acc + (of_char c - 48)) 0 ds"

definition stoi :: "string \<Rightarrow> stoi_error + int" where
  "stoi str =
     (let rest = dropWhile is_space str;
          neg = (rest \<noteq> [] \<and> hd rest = CHR ''-'');
          body = (if rest \<noteq> [] \<and> (hd rest = CHR ''-'' \<or> hd rest = CHR ''+'') then tl rest else rest);
          ds = takeWhile is_digit body;
          v = (if neg then - digits_value ds else digits_value ds)
      in if ds = [] then Inl invalid_argument
         else if v < INT_MIN \<or> INT_MAX < v then Inl out_of_range
         else Inr v)"

section \<open>The operating system as seen by the shell\<close>

text \<open>
  A \<^verbatim>\<open>HANDLE\<close> is \<^verbatim>\<open>NULL\<close>, \<^verbatim>\<open>INVALID_HANDLE_VALUE\<close>, one of the three console handles
  that \<^verbatim>\<open>GetStdHandle\<close> returns, or a handle that the system allocated for the shell
  (numbered in the order of allocation).
\<close>

datatype handle = NULL | INVALID_HANDLE_VALUE | STD_INPUT | STD_OUTPUT | STD_ERROR | H nat

text \<open>The access and creation disposition of a \<^verbatim>\<open>CreateFileA\<close> call.\<close>

datatype file_mode = READ_OPEN_EXISTING | WRITE_CREATE_ALWAYS | WRITE_OPEN_ALWAYS

text \<open>The fields of \<^verbatim>\<open>STARTUPINFOA\<close> that the shell sets (the structure is zeroed
  first, so an untouched handle is \<^verbatim>\<open>NULL\<close>).\<close>

record startup =
  hStdInput :: handle
  hStdOutput :: handle
  hStdError :: handle
  use_std_handles :: bool

text \<open>
  Every call that the shell makes into the system or the C++ streams is recorded, in
  order, with its result. \<open>CreateProcessA\<close> carries the command line, the startup
  information and, on success, the process handle, the thread handle and the process id.
\<close>

datatype event =
    Stdout string
  | Stderr string
  | CreatePipe "(handle \<times> handle) option"
  | CreateFileA string file_mode handle
  | SetFilePointerEnd handle
  | CreateProcessA string startup "(handle \<times> handle \<times> nat) option"
  | CloseHandle handle
  | WaitForSingleObject handle
  | WaitForMultipleObjects "handle list"
  | TerminateProcess handle bool
  | Chdir string bool
  | System string
  | Exit int

text \<open>The answer of \<^verbatim>\<open>GetExitCodeProcess\<close>: the call fails, or it stores an exit
  code, which is \<^verbatim>\<open>STILL_ACTIVE\<close> (259) while the process runs.\<close>

datatype exit_query = QueryFailed | ExitCode nat

definition STILL_ACTIVE :: nat where
  "STILL_ACTIVE = 259"

text \<open>
  What the system answers is not decided by the shell; it is a parameter of every
  operation: whether the \<open>k\<close>-th \<^verbatim>\<open>CreatePipe\<close> of a pipeline succeeds, whether a file can
  be opened for reading or for writing, whether \<^verbatim>\<open>CreateProcessA\<close> succeeds for the
  \<open>i\<close>-th stage with a given command line, the process id behind a process handle, the
  answer of \<^verbatim>\<open>GetExitCodeProcess\<close> and of \<^verbatim>\<open>TerminateProcess\<close>, the environment
  and directory services used by \<^verbatim>\<open>cd\<close> and by the prompt, and \<^verbatim>\<open>GetLastError\<close>.
\<close>

record env =
  pipe_ok :: "nat \<Rightarrow> bool"
  open_read_ok :: "string \<Rightarrow> bool"
  open_write_ok :: "string \<Rightarrow> bool"
  launch_ok :: "nat \<Rightarrow> string \<Rightarrow> bool"
  pid_of :: "handle \<Rightarrow> nat"
  exit_query_of :: "handle \<Rightarrow> exit_query"
  terminate_ok :: "handle \<Rightarrow> bool"
  getenv :: "string \<Rightarrow> string option"
  chdir_ok :: "string \<Rightarrow> bool"
  getcwd :: "string option"
  last_error :: nat

section \<open>Jobs and the shell state\<close>

record Job =
  hProcess :: handle
  processId :: nat
  command :: string
  completed :: bool

text \<open>
  The members of \<^verbatim>\<open>class WindowsShell\<close>, followed by what the model adds: \<open>exited\<close> is
  set once \<^verbatim>\<open>exit(code)\<close> has been called (the process is gone then), \<open>next_handle\<close> is
  the number of the next handle the system will allocate, and \<open>trace\<close> is the record of
  the calls made so far. \<^verbatim>\<open>std::map<int, Job>\<close> is kept as an association list in
  ascending key order, which is the order in which the source iterates over it.
\<close>

record shell =
  jobs :: "(int \<times> Job) list"
  job_counter :: int
  running :: bool
  exited :: "int option"
  next_handle :: nat
  trace :: "event list"

text \<open>The constructor sets \<^verbatim>\<open>job_counter(1), running(true)\<close>. Its banner is not part of
  the trace.\<close>

definition WindowsShell :: shell where
  "WindowsShell = \<lparr>jobs = [], job_counter = 1, running = True, exited = None,
                   next_handle = 0, trace = []\<rparr>"

definition emit :: "event list \<Rightarrow> shell \<Rightarrow> shell" where
  "emit evs s = s\<lparr>trace := trace s @ evs\<rparr>"

text \<open>\<^verbatim>\<open>jobs[k] = v\<close>, \<^verbatim>\<open>jobs.erase(k)\<close> and \<^verbatim>\<open>jobs.find(k)\<close> on the ordered list.\<close>

fun map_assign :: "int \<Rightarrow> Job \<Rightarrow> (int \<times> Job) list \<Rightarrow> (int \<times> Job) list" where
  "map_assign k v [] = [(k, v)]"
| "map_assign k v ((k', v') # m) =
     (if k < k' then (k, v) # (k', v') # m
      else if k = k' then (k, v) # m
      else (k', v') # map_assign k v m)"

definition map_erase :: "int \<Rightarrow> (int \<times> Job) list \<Rightarrow> (int \<times> Job) list" where
  "map_erase k m = filter (\<lambda>p. fst p \<noteq> k) m"

definition map_find :: "(int \<times> Job) list \<Rightarrow> int \<Rightarrow> Job option" where
  "map_find m k = map_of m k"

subsection \<open>Job management\<close>

text \<open>
  \<^verbatim>\<open>jobs[job_counter++] = Job(hProcess, processId, command)\<close>. The job is stored under
  the value the counter had, and the counter, a 32-bit \<^verbatim>\<open>int\<close>, is incremented: after
  \<^verbatim>\<open>INT_MAX\<close> comes \<^verbatim>\<open>INT_MIN\<close>.
\<close>

definition add_job :: "handle \<Rightarrow> nat \<Rightarrow> string \<Rightarrow> shell \<Rightarrow> shell" where
  "add_job h pid cmd s =
     s\<lparr>jobs := map_assign (job_counter s)
                 \<lparr>hProcess = h, processId = pid, command = cmd, completed = False\<rparr> (jobs s),
       job_counter := int32 (job_counter s + 1)\<rparr>"

definition remove_job :: "int \<Rightarrow> shell \<Rightarrow> shell" where
  "remove_job job_id s = s\<lparr>jobs := map_erase job_id (jobs s)\<rparr>"

text \<open>The first loop of \<^verbatim>\<open>check_background_jobs\<close>: the calls made and the ids collected
  in \<^verbatim>\<open>completed_jobs\<close>.\<close>

fun poll_jobs :: "env \<Rightarrow> (int \<times> Job) list \<Rightarrow> event list \<times> int list" where
  "poll_jobs e [] = ([], [])"
| "poll_jobs e ((job_id, j) # rest) =
     (let (evs, done) = poll_jobs e rest in
      if hProcess j \<noteq> NULL then
        (case exit_query_of e (hProcess j) of
           ExitCode c \<Rightarrow>
             if c \<noteq> STILL_ACTIVE then
               (Stdout (''['' @ show_int job_id @ ''] Done    '' @ command j @ nl)
                  # CloseHandle (hProcess j) # evs,
                job_id # done)
             else (evs, done)
         | QueryFailed \<Rightarrow> (evs, done))
      else (evs, done))"

definition check_background_jobs :: "env \<Rightarrow> shell \<Rightarrow> shell" where
  "check_background_jobs e s =
     (let (evs, completed_jobs) = poll_jobs e (jobs s)
      in foldl (\<lambda>s' job_id. remove_job job_id s') (emit evs s) completed_jobs)"


section \<open>Built-in commands\<close>

text \<open>
  \<^verbatim>\<open>builtin_cd\<close>: without an argument the directory is \<^verbatim>\<open>USERPROFILE\<close>, else
  \<^verbatim>\<open>HOME\<close>, else the error; \<^verbatim>\<open>chdir\<close> is then attempted.
\<close>

definition builtin_cd :: "env \<Rightarrow> string list \<Rightarrow> shell \<Rightarrow> shell" where
  "builtin_cd e as s =
     (let path = (if length as < 2 then
                    (case getenv e ''USERPROFILE'' of
                       Some p \<Rightarrow> Some p
                     | None \<Rightarrow> getenv e ''HOME'')
                  else Some (as ! 1))
      in case path of
           None \<Rightarrow> emit [Stderr (''cd: HOME not set'' @ nl)] s
         | Some p \<Rightarrow>
             if chdir_ok e p then emit [Chdir p True] s
             else emit [Chdir p False, Stderr (''cd: cannot change directory to '' @ p @ nl)] s)"

text \<open>The loop of \<^verbatim>\<open>builtin_exit\<close> and of the destructor: the handle of every job is
  closed unless it is \<^verbatim>\<open>NULL\<close>.\<close>

definition close_job_handles :: "(int \<times> Job) list \<Rightarrow> event list" where
  "close_job_handles m =
     map (\<lambda>p. CloseHandle (hProcess (snd p))) (filter (\<lambda>p. hProcess (snd p) \<noteq> NULL) m)"

text \<open>
  \<^verbatim>\<open>builtin_exit\<close>: the exit code is 0 without an argument, else what \<^verbatim>\<open>std::stoi\<close>
  returns for the first argument; when \<^verbatim>\<open>std::stoi\<close> throws, the message is printed and
  the function returns. Otherwise the job handles are closed and \<^verbatim>\<open>exit(exit_code)\<close>
  ends the process.
\<close>

definition do_exit :: "int \<Rightarrow> shell \<Rightarrow> shell" where
  "do_exit exit_code s =
     (emit (close_job_handles (jobs s) @ [Exit exit_code]) s)
       \<lparr>running := False, exited := Some exit_code\<rparr>"

definition builtin_exit :: "string list \<Rightarrow> shell \<Rightarrow> shell" where
  "builtin_exit as s =
     (if length as > 1 then
        (case stoi (as ! 1) of
           Inl err \<Rightarrow> emit [Stderr (''exit: invalid argument'' @ nl)] s
         | Inr exit_code \<Rightarrow> do_exit exit_code s)
      else do_exit 0 s)"

definition list_jobs :: "(int \<times> Job) list \<Rightarrow> event list" where
  "list_jobs m =
     map (\<lambda>p. Stdout (''['' @ show_int (fst p) @ ''] '' @ ''PID:'' @ show_nat (processId (snd p))
                        @ '' '' @ command (snd p) @ nl))
         (filter (\<lambda>p. \<not> completed (snd p)) m)"

definition builtin_jobs :: "env \<Rightarrow> shell \<Rightarrow> shell" where
  "builtin_jobs e s =
     (let s1 = check_background_jobs e s
      in if jobs s1 = [] then emit [Stdout (''No background jobs'' @ nl)] s1
         else emit (list_jobs (jobs s1)) s1)"

definition builtin_fg :: "string list \<Rightarrow> shell \<Rightarrow> shell" where
  "builtin_fg as s =
     (if length as < 2 then emit [Stderr (''fg: job id required'' @ nl)] s
      else case stoi (as ! 1) of
             Inl err \<Rightarrow> emit [Stderr (''fg: invalid job id'' @ nl)] s
           | Inr job_id \<Rightarrow>
               (case map_find (jobs s) job_id of
                  None \<Rightarrow> emit [Stderr (''fg: job not found'' @ nl)] s
                | Some j \<Rightarrow>
                    remove_job job_id
                      (emit [Stdout (command j @ nl), WaitForSingleObject (hProcess j),
                             CloseHandle (hProcess j)] s)))"

definition builtin_kill :: "env \<Rightarrow> string list \<Rightarrow> shell \<Rightarrow> shell" where
  "builtin_kill e as s =
     (if length as < 2 then emit [Stderr (''kill: job id required'' @ nl)] s
      else case stoi (as ! 1) of
             Inl err \<Rightarrow> emit [Stderr (''kill: invalid job id'' @ nl)] s
           | Inr job_id \<Rightarrow>
               (case map_find (jobs s) job_id of
                  None \<Rightarrow> emit [Stderr (''kill: job not found'' @ nl)] s
                | Some j \<Rightarrow>
                    if terminate_ok e (hProcess j) then
                      remove_job job_id
                        (emit [TerminateProcess (hProcess j) True,
                               Stdout (''['' @ show_int job_id @ ''] Terminated'' @ nl),
                               CloseHandle (hProcess j)] s)
                    else emit [TerminateProcess (hProcess j) False,
                               Stderr (''kill: failed to terminate process'' @ nl)] s))"

definition help_text :: string where
  "help_text = concat (map (\<lambda>l. l @ nl)
     ['''',
      ''=== Windows Mini Shell Help ==='',
      '''',
      ''Built-in Commands:'',
      ''  cd [dir]     - Change directory'',
      ''  exit [code]  - Exit shell'',
      ''  jobs         - List background jobs'',
      ''  fg <id>      - Bring job to foreground'',
      ''  kill <id>    - Terminate background job'',
      ''  cls/clear    - Clear screen'',
      ''  help         - Show this help'',
      '''',
      ''Features:'',
      ''  Pipes:       cmd1 | cmd2 | cmd3'',
      ''  Redirect:    cmd < input.txt > output.txt'',
      ''  Append:      cmd >> output.txt'',
      ''  Background:  cmd &'',
      '''',
      ''Examples:'',
      ''  dir | findstr .cpp'',
      ''  type file.txt | sort > sorted.txt'',
      ''  ping google.com -n 10 &'',
      ''  jobs'',
      ''  kill 1'',
      ''''])"

definition builtin_help :: "shell \<Rightarrow> shell" where
  "builtin_help s = emit [Stdout help_text] s"

text \<open>\<^verbatim>\<open>handle_builtin\<close> returns \<^verbatim>\<open>false\<close> (here \<open>None\<close>) when the command is not a
  built-in, and \<^verbatim>\<open>true\<close> after running one (here the state it leaves).\<close>

definition handle_builtin :: "env \<Rightarrow> Command \<Rightarrow> shell \<Rightarrow> shell option" where
  "handle_builtin e cmd s =
     (case args cmd of
        [] \<Rightarrow> None
      | name # _ \<Rightarrow>
          if name = ''cd'' then Some (builtin_cd e (args cmd) s)
          else if name = ''exit'' then Some (builtin_exit (args cmd) s)
          else if name = ''jobs'' then Some (builtin_jobs e s)
          else if name = ''fg'' then Some (builtin_fg (args cmd) s)
          else if name = ''kill'' then Some (builtin_kill e (args cmd) s)
          else if name = ''help'' then Some (builtin_help s)
          else if name = ''cls'' \<or> name = ''clear'' then Some (emit [System ''cls''] s)
          else None)"

section \<open>Process creation and execution\<close>

text \<open>The arguments joined by single spaces; an argument that contains a space is put
  between double quotes.\<close>

definition quote_arg :: "string \<Rightarrow> string" where
  "quote_arg a = (if CHR '' '' \<in> set a then dquote @ a @ dquote else a)"

fun build_command_line :: "string list \<Rightarrow> string" where
  "build_command_line [] = []"
| "build_command_line [a] = quote_arg a"
| "build_command_line (a # b # rest) = quote_arg a @ '' '' @ build_command_line (b # rest)"

text \<open>
  The system calls that allocate handles. A successful \<^verbatim>\<open>CreateFileA\<close> returns one new
  handle, a successful \<^verbatim>\<open>CreatePipe\<close> two (read end, write end), a successful
  \<^verbatim>\<open>CreateProcessA\<close> two (process, thread) and the process id.
\<close>

definition create_file :: "env \<Rightarrow> string \<Rightarrow> file_mode \<Rightarrow> shell \<Rightarrow> handle \<times> shell" where
  "create_file e path mode s =
     (if (if mode = READ_OPEN_EXISTING then open_read_ok e path else open_write_ok e path) then
        (H (next_handle s),
         (emit [CreateFileA path mode (H (next_handle s))] s)\<lparr>next_handle := next_handle s + 1\<rparr>)
      else (INVALID_HANDLE_VALUE, emit [CreateFileA path mode INVALID_HANDLE_VALUE] s))"

definition create_pipe :: "env \<Rightarrow> nat \<Rightarrow> shell \<Rightarrow> (handle \<times> handle) option \<times> shell" where
  "create_pipe e k s =
     (if pipe_ok e k then
        (Some (H (next_handle s), H (next_handle s + 1)),
         (emit [CreatePipe (Some (H (next_handle s), H (next_handle s + 1)))] s)
           \<lparr>next_handle := next_handle s + 2\<rparr>)
      else (None, emit [CreatePipe None] s))"

definition create_process ::
    "env \<Rightarrow> nat \<Rightarrow> string \<Rightarrow> startup \<Rightarrow> shell \<Rightarrow> (handle \<times> handle \<times> nat) option \<times> shell" where
  "create_process e i cmdline si s =
     (if launch_ok e i cmdline then
        (let hp = H (next_handle s); ht = H (next_handle s + 1);
             pi = (hp, ht, pid_of e hp)
         in (Some pi, (emit [CreateProcessA cmdline si (Some pi)] s)
                        \<lparr>next_handle := next_handle s + 2\<rparr>))
      else (None, emit [CreateProcessA cmdline si None] s))"

definition startup0 :: startup where
  "startup0 = \<lparr>hStdInput = NULL, hStdOutput = NULL, hStdError = NULL, use_std_handles = False\<rparr>"


text \<open>
  \<^verbatim>\<open>execute_command\<close>, the single-command path. An input or output file that cannot
  be opened is reported and the function returns before any process is created.
\<close>

definition execute_command :: "env \<Rightarrow> Command \<Rightarrow> shell \<Rightarrow> shell" where
  "execute_command e cmd s =
     (if args cmd = [] then s
      else
        let (hInputFile, s1) =
              (if input_file cmd \<noteq> [] then create_file e (input_file cmd) READ_OPEN_EXISTING s
               else (INVALID_HANDLE_VALUE, s))
        in if input_file cmd \<noteq> [] \<and> hInputFile = INVALID_HANDLE_VALUE then
             emit [Stderr (''Error: Cannot open input file '' @ input_file cmd @ nl)] s1
           else
             let si1 = (if input_file cmd \<noteq> []
                        then startup0\<lparr>hStdInput := hInputFile, use_std_handles := True\<rparr>
                        else startup0);
                 (hOutputFile, s2) =
                   (if output_file cmd \<noteq> [] then
                      create_file e (output_file cmd)
                        (if append_output cmd then WRITE_OPEN_ALWAYS else WRITE_CREATE_ALWAYS) s1
                    else (INVALID_HANDLE_VALUE, s1))
             in if output_file cmd \<noteq> [] \<and> hOutputFile = INVALID_HANDLE_VALUE then
                  emit (Stderr (''Error: Cannot open output file '' @ output_file cmd @ nl)
                        # (if hInputFile \<noteq> INVALID_HANDLE_VALUE then [CloseHandle hInputFile] else []))
                    s2
                else
                  let s3 = (if output_file cmd \<noteq> [] \<and> append_output cmd
                            then emit [SetFilePointerEnd hOutputFile] s2 else s2);
                      si2 = (if output_file cmd \<noteq> []
                             then si1\<lparr>hStdOutput := hOutputFile, hStdError := hOutputFile,
                                     use_std_handles := True\<rparr>
                             else si1);
                      cmdline = build_command_line (args cmd);
                      (created, s4) = create_process e 0 cmdline si2 s3;
                      s5 = emit ((if hInputFile \<noteq> INVALID_HANDLE_VALUE
                                  then [CloseHandle hInputFile] else [])
                                 @ (if hOutputFile \<noteq> INVALID_HANDLE_VALUE
                                    then [CloseHandle hOutputFile] else [])) s4
                  in case created of
                       None \<Rightarrow>
                         emit [Stderr (''Error: Cannot execute command: '' @ hd (args cmd) @ nl),
                               Stderr (''Error code: '' @ show_nat (last_error e) @ nl)] s5
                     | Some (hp, ht, pid) \<Rightarrow>
                         if background cmd then
                           (let s6 = add_job hp pid (build_command_line (args cmd)) s5
                            in emit [Stdout (''['' @ show_int (int32 (job_counter s6 - 1)) @ ''] ''
                                             @ show_nat pid @ nl),
                                     CloseHandle ht] s6)
                         else emit [WaitForSingleObject hp, CloseHandle hp, CloseHandle ht] s5)"

subsection \<open>Pipelines\<close>

text \<open>
  The first loop of the pipeline path: iteration \<open>i\<close> with \<open>k\<close> iterations left, the
  read ends \<open>rs\<close> and the write ends \<open>ws\<close> collected so far. When \<^verbatim>\<open>CreatePipe\<close> fails
  the message is printed and \<^verbatim>\<open>execute_pipeline\<close> returns at once (\<open>None\<close>).
\<close>

fun create_pipes ::
    "env \<Rightarrow> nat \<Rightarrow> nat \<Rightarrow> handle list \<Rightarrow> handle list \<Rightarrow> shell
       \<Rightarrow> (handle list \<times> handle list) option \<times> shell" where
  "create_pipes e i 0 rs ws s = (Some (rs, ws), s)"
| "create_pipes e i (Suc k) rs ws s =
     (case create_pipe e i s of
        (None, s1) \<Rightarrow> (None, emit [Stderr (''Error: Cannot create pipe'' @ nl)] s1)
      | (Some (r, w), s1) \<Rightarrow> create_pipes e (Suc i) k (rs @ [r]) (ws @ [w]) s1)"

text \<open>
  One iteration of the second loop, for stage \<open>i\<close>. The standard input is the input
  file or the console for the first stage and the read end of pipe \<open>i - 1\<close> for every
  other stage; the standard output is the output file or the console for the last stage
  and the write end of pipe \<open>i\<close> for every other stage. The result of \<^verbatim>\<open>CreateFileA\<close>
  is not tested. A failed \<^verbatim>\<open>CreateProcessA\<close> is reported and the loop goes on; a
  successful one appends the process handle to \<^verbatim>\<open>hProcesses\<close>.
\<close>

definition setup_stdin ::
    "env \<Rightarrow> Command list \<Rightarrow> handle list \<Rightarrow> nat \<Rightarrow> shell \<Rightarrow> handle \<times> shell" where
  "setup_stdin e cmds hReadPipes i s =
     (if i = 0 then
        (if input_file (cmds ! i) \<noteq> []
         then create_file e (input_file (cmds ! i)) READ_OPEN_EXISTING s
         else (STD_INPUT, s))
      else (hReadPipes ! (i - 1), s))"

definition setup_stdout ::
    "env \<Rightarrow> Command list \<Rightarrow> handle list \<Rightarrow> nat \<Rightarrow> shell \<Rightarrow> handle \<times> shell" where
  "setup_stdout e cmds hWritePipes i s =
     (if i = length cmds - 1 then
        (if output_file (cmds ! i) \<noteq> [] then
           (let (h, t) = create_file e (output_file (cmds ! i))
                           (if append_output (cmds ! i) then WRITE_OPEN_ALWAYS
                            else WRITE_CREATE_ALWAYS) s
            in if append_output (cmds ! i) \<and> h \<noteq> INVALID_HANDLE_VALUE
               then (h, emit [SetFilePointerEnd h] t) else (h, t))
         else (STD_OUTPUT, s))
      else (hWritePipes ! i, s))"

definition launch_stage ::
    "env \<Rightarrow> Command list \<Rightarrow> handle list \<Rightarrow> handle list \<Rightarrow> handle list \<times> shell \<Rightarrow> nat
       \<Rightarrow> handle list \<times> shell" where
  "launch_stage e cmds hReadPipes hWritePipes acc i =
     (let (hProcesses, s) = acc;
          (hin, s1) = setup_stdin e cmds hReadPipes i s;
          (hout, s2) = setup_stdout e cmds hWritePipes i s1;
          si = \<lparr>hStdInput = hin, hStdOutput = hout, hStdError = STD_ERROR,
                use_std_handles = True\<rparr>;
          cmdline = build_command_line (args (cmds ! i));
          (created, s3) = create_process e i cmdline si s2
      in case created of
           None \<Rightarrow>
             (hProcesses,
              emit [Stderr (''Error: Cannot execute ''
                            @ (case args (cmds ! i) of [] \<Rightarrow> [] | a # _ \<Rightarrow> a) @ nl)] s3)
         | Some (hp, ht, pid) \<Rightarrow> (hProcesses @ [hp], emit [CloseHandle ht] s3))"

definition launch_stages ::
    "env \<Rightarrow> Command list \<Rightarrow> handle list \<Rightarrow> handle list \<Rightarrow> shell \<Rightarrow> handle list \<times> shell" where
  "launch_stages e cmds hReadPipes hWritePipes s =
     foldl (launch_stage e cmds hReadPipes hWritePipes) ([], s) [0..<length cmds]"

text \<open>The display string of a background pipeline: the command lines joined by
  \<^verbatim>\<open>" | "\<close>.\<close>

fun pipeline_string :: "Command list \<Rightarrow> string" where
  "pipeline_string [] = []"
| "pipeline_string [c] = build_command_line (args c)"
| "pipeline_string (c # d # rest) =
     build_command_line (args c) @ '' | '' @ pipeline_string (d # rest)"

text \<open>
  What follows the two loops: every pipe handle is closed, then the flag of the last
  stage decides. In the background only the first launched process becomes a job and
  the other process handles are closed; otherwise the shell waits for all launched
  processes and closes their handles.
\<close>

definition finish_pipeline ::
    "env \<Rightarrow> Command list \<Rightarrow> handle list \<Rightarrow> handle list \<Rightarrow> handle list \<Rightarrow> shell \<Rightarrow> shell" where
  "finish_pipeline e cmds hReadPipes hWritePipes hProcesses s =
     (let s1 = emit (map CloseHandle hReadPipes @ map CloseHandle hWritePipes) s
      in if background (last cmds) then
           (let s2 = (if hProcesses \<noteq> [] then
                        (let s' = add_job (hProcesses ! 0) (pid_of e (hProcesses ! 0))
                                    (pipeline_string cmds) s1
                         in emit [Stdout (''['' @ show_int (int32 (job_counter s' - 1)) @ ''] ''
                                          @ show_nat (pid_of e (hProcesses ! 0)) @ nl)] s')
                      else s1)
            in emit (map CloseHandle (drop 1 hProcesses)) s2)
         else
           (let s2 = (if hProcesses \<noteq> [] then emit [WaitForMultipleObjects hProcesses] s1
                      else s1)
            in emit (map CloseHandle hProcesses) s2))"

text \<open>The part of \<^verbatim>\<open>execute_pipeline\<close> that runs for two or more commands.\<close>

definition run_pipeline :: "env \<Rightarrow> Command list \<Rightarrow> shell \<Rightarrow> shell" where
  "run_pipeline e cmds s =
     (case create_pipes e 0 (length cmds - 1) [] [] s of
        (None, s1) \<Rightarrow> s1
      | (Some (hReadPipes, hWritePipes), s1) \<Rightarrow>
          (let (hProcesses, s2) = launch_stages e cmds hReadPipes hWritePipes s1
           in finish_pipeline e cmds hReadPipes hWritePipes hProcesses s2))"

definition execute_pipeline :: "env \<Rightarrow> Command list \<Rightarrow> shell \<Rightarrow> shell" where
  "execute_pipeline e cmds s =
     (if cmds = [] then s
      else if length cmds = 1 then
        (case handle_builtin e (cmds ! 0) s of
           Some s' \<Rightarrow> s'
         | None \<Rightarrow> execute_command e (cmds ! 0) s)
      else run_pipeline e cmds s)"

section \<open>The read loop\<close>

definition display_prompt :: "env \<Rightarrow> shell \<Rightarrow> shell" where
  "display_prompt e s =
     (case getcwd e of
        Some cwd \<Rightarrow> emit [Stdout (''shell:'' @ cwd @ ''> '')] s
      | None \<Rightarrow> emit [Stdout ''shell> ''] s)"

text \<open>\<^verbatim>\<open>input.empty() || input.find_first_not_of(" \t\n") == npos\<close>\<close>

definition blank_line :: "string \<Rightarrow> bool" where
  "blank_line input = (\<forall>c\<in>set input. c = CHR '' '' \<or> c = CHR 0x09 \<or> c = CHR 0x0A)"

text \<open>
  \<^verbatim>\<open>run\<close> reads lines for as long as the user types them, so the model runs it on the
  list of what \<^verbatim>\<open>std::getline\<close> returns in the successive iterations (\<open>None\<close> at the
  end of the input), each with the system's answers during that iteration. After
  \<^verbatim>\<open>exit(code)\<close> nothing more happens.
\<close>

fun run :: "(env \<times> string option) list \<Rightarrow> shell \<Rightarrow> shell" where
  "run [] s = s"
| "run ((e, line) # rest) s =
     (if \<not> running s \<or> exited s \<noteq> None then s
      else
        let s1 = display_prompt e (check_background_jobs e s)
        in case line of
             None \<Rightarrow> emit [Stdout (nl @ ''exit'' @ nl)] s1
           | Some input \<Rightarrow>
               if blank_line input then run rest s1
               else run rest (execute_pipeline e (parse_input input) s1))"


section \<open>Notions used in the statements\<close>

text \<open>The keys of a \<^verbatim>\<open>std::map\<close> are unique and iterated in ascending order.\<close>

definition wf_jobs :: "(int \<times> Job) list \<Rightarrow> bool" where
  "wf_jobs m = sorted_wrt (<) (map fst m)"

text \<open>The condition under which the first loop of \<^verbatim>\<open>check_background_jobs\<close> collects
  a job: its handle is not \<^verbatim>\<open>NULL\<close>, the query succeeds, and the exit code is not
  \<^verbatim>\<open>STILL_ACTIVE\<close>.\<close>

definition job_finished :: "env \<Rightarrow> Job \<Rightarrow> bool" where
  "job_finished e j =
     (hProcess j \<noteq> NULL \<and>
      (case exit_query_of e (hProcess j) of ExitCode c \<Rightarrow> c \<noteq> STILL_ACTIVE | QueryFailed \<Rightarrow> False))"

text \<open>The operations of one session that touch the job registry.\<close>

datatype registry_op =
    Launch handle nat string
  | Removal int
  | Poll env
  | Jobs env
  | Fg "string list"
  | Kill env "string list"

fun apply_op :: "registry_op \<Rightarrow> shell \<Rightarrow> shell" where
  "apply_op (Launch h pid cmd) s = add_job h pid cmd s"
| "apply_op (Removal k) s = remove_job k s"
| "apply_op (Poll e) s = check_background_jobs e s"
| "apply_op (Jobs e) s = builtin_jobs e s"
| "apply_op (Fg as) s = builtin_fg as s"
| "apply_op (Kill e as) s = builtin_kill e as s"

definition apply_ops :: "registry_op list \<Rightarrow> shell \<Rightarrow> shell" where
  "apply_ops ops s = foldl (\<lambda>s' op. apply_op op s') s ops"

fun is_launch :: "registry_op \<Rightarrow> bool" where
  "is_launch (Launch h pid cmd) = True"
| "is_launch _ = False"

text \<open>The ids that an operation assigns are read off the registry: they are the keys
  the registry holds after the operation and did not hold before it.\<close>

definition new_keys :: "(int \<times> Job) list \<Rightarrow> (int \<times> Job) list \<Rightarrow> int list" where
  "new_keys before after = filter (\<lambda>k. k \<notin> set (map fst before)) (map fst after)"

fun assigned_ids :: "registry_op list \<Rightarrow> shell \<Rightarrow> int list" where
  "assigned_ids [] s = []"
| "assigned_ids (op # ops) s =
     new_keys (jobs s) (jobs (apply_op op s)) @ assigned_ids ops (apply_op op s)"

text \<open>Projections of a trace: the pipes created, the startup information of the launch
  attempts, the handles closed, the files opened for reading, the messages on the error
  stream, the process handles of the successful launches and the handle lists waited
  on, each in order.\<close>

fun pipe_of :: "event \<Rightarrow> (handle \<times> handle) list" where
  "pipe_of (CreatePipe (Some p)) = [p]"
| "pipe_of _ = []"

fun launch_of :: "event \<Rightarrow> startup list" where
  "launch_of (CreateProcessA cmdline si r) = [si]"
| "launch_of _ = []"

fun closed_of :: "event \<Rightarrow> handle list" where
  "closed_of (CloseHandle h) = [h]"
| "closed_of _ = []"

fun read_of :: "event \<Rightarrow> string list" where
  "read_of (CreateFileA path READ_OPEN_EXISTING h) = [path]"
| "read_of _ = []"

fun stderr_of :: "event \<Rightarrow> string list" where
  "stderr_of (Stderr msg) = [msg]"
| "stderr_of _ = []"

fun launched_of :: "event \<Rightarrow> handle list" where
  "launched_of (CreateProcessA cmdline si (Some (hp, ht, pid))) = [hp]"
| "launched_of _ = []"

fun wait_of :: "event \<Rightarrow> handle list list" where
  "wait_of (WaitForSingleObject h) = [[h]]"
| "wait_of (WaitForMultipleObjects hs) = [hs]"
| "wait_of _ = []"

definition created_pipes :: "event list \<Rightarrow> (handle \<times> handle) list" where
  "created_pipes tr = concat (map pipe_of tr)"

definition launch_attempts :: "event list \<Rightarrow> startup list" where
  "launch_attempts tr = concat (map launch_of tr)"

definition closed_handles :: "event list \<Rightarrow> handle list" where
  "closed_handles tr = concat (map closed_of tr)"

definition opened_for_reading :: "event list \<Rightarrow> string list" where
  "opened_for_reading tr = concat (map read_of tr)"

definition error_messages :: "event list \<Rightarrow> string list" where
  "error_messages tr = concat (map stderr_of tr)"

definition launched_processes :: "event list \<Rightarrow> handle list" where
  "launched_processes tr = concat (map launched_of tr)"

definition waited_on :: "event list \<Rightarrow> handle list list" where
  "waited_on tr = concat (map wait_of tr)"

text \<open>The events that an operation added to the trace, and the handles that \<open>n\<close>
  successful \<^verbatim>\<open>CreatePipe\<close> calls return when the next free handle is \<open>nh\<close>.\<close>

definition new_events :: "shell \<Rightarrow> shell \<Rightarrow> event list" where
  "new_events s s' = drop (length (trace s)) (trace s')"

definition fresh_pipes :: "nat \<Rightarrow> nat \<Rightarrow> (handle \<times> handle) list" where
  "fresh_pipes nh n = map (\<lambda>j. (H (nh + 2 * j), H (nh + 2 * j + 1))) [0..<n]"

text \<open>A handle that the system allocated at or after position \<open>nh\<close>.\<close>

definition allocated_from :: "nat \<Rightarrow> handle \<Rightarrow> bool" where
  "allocated_from nh h = (case h of H k \<Rightarrow> nh \<le> k | _ \<Rightarrow> False)"

text \<open>
  What the launch loop has done after \<open>m\<close> stages, read off the events \<open>evs\<close> it added
  when the next free handle was \<open>nh\<close> at its start: one launch attempt per stage, stage
  \<open>i > 0\<close> reading from \<open>rs ! (i - 1)\<close> and stage \<open>i\<close> before the last writing to
  \<open>ws ! i\<close>; no pipe created; no file opened for reading but the input file of the first
  stage; \<open>hs\<close> the handles of the processes launched; nothing waited on; only handles
  allocated by the loop itself closed; and no error message but that of a failed launch.
\<close>

definition stages_launched ::
    "Command list \<Rightarrow> handle list \<Rightarrow> handle list \<Rightarrow> nat \<Rightarrow> nat \<Rightarrow> event list \<Rightarrow> handle list
       \<Rightarrow> bool" where
  "stages_launched cmds rs ws nh m evs hs =
     (length (launch_attempts evs) = m
      \<and> (\<forall>i<m. (0 < i \<longrightarrow> hStdInput (launch_attempts evs ! i) = rs ! (i - 1))
               \<and> (i < length cmds - 1 \<longrightarrow> hStdOutput (launch_attempts evs ! i) = ws ! i))
      \<and> created_pipes evs = []
      \<and> opened_for_reading evs
          = (if 0 < m \<and> input_file (cmds ! 0) \<noteq> [] then [input_file (cmds ! 0)] else [])
      \<and> launched_processes evs = hs
      \<and> waited_on evs = []
      \<and> (\<forall>h\<in>set (closed_handles evs). allocated_from nh h)
      \<and> (\<forall>h\<in>set hs. allocated_from nh h)
      \<and> (\<forall>msg\<in>set (error_messages evs). \<exists>x. msg = ''Error: Cannot execute '' @ x @ nl))"

text \<open>
  Two pipelines that differ only in what the pipeline path never reads: it reads the
  arguments of every stage, the input file of the first stage, and the output file, the
  append flag and the background flag of the last stage.
\<close>

definition same_for_pipeline :: "Command list \<Rightarrow> Command list \<Rightarrow> bool" where
  "same_for_pipeline cmds cmds' =
     (length cmds' = length cmds
      \<and> map args cmds' = map args cmds
      \<and> input_file (cmds' ! 0) = input_file (cmds ! 0)
      \<and> output_file (last cmds') = output_file (last cmds)
      \<and> append_output (last cmds') = append_output (last cmds)
      \<and> background (last cmds') = background (last cmds))"

text \<open>An integer written in decimal: an optional sign and one or more digits, nothing
  else.\<close>

definition is_integer_literal :: "string \<Rightarrow> bool" where
  "is_integer_literal a =
     (let body = (if a \<noteq> [] \<and> (hd a = CHR ''-'' \<or> hd a = CHR ''+'') then tl a else a)
      in body \<noteq> [] \<and> list_all is_digit body)"

text \<open>Sample answers of the system, for the examples: everything succeeds and every
  process is still running; then the same with the second pipe refused, with no file
  readable, with the exit-code query failing, with every process finished, and with
  termination refused.\<close>

definition env_ok :: env where
  "env_ok = \<lparr>pipe_ok = (\<lambda>k. True), open_read_ok = (\<lambda>p. True), open_write_ok = (\<lambda>p. True),
             launch_ok = (\<lambda>i c. True),
             pid_of = (\<lambda>h. case h of H n \<Rightarrow> 1000 + n | _ \<Rightarrow> 0),
             exit_query_of = (\<lambda>h. ExitCode STILL_ACTIVE), terminate_ok = (\<lambda>h. True),
             getenv = (\<lambda>v. None), chdir_ok = (\<lambda>p. True), getcwd = None, last_error = 0\<rparr>"

definition env_second_pipe_fails :: env where
  "env_second_pipe_fails = env_ok\<lparr>pipe_ok := (\<lambda>k. k < 1)\<rparr>"

definition env_no_file :: env where
  "env_no_file = env_ok\<lparr>open_read_ok := (\<lambda>p. False)\<rparr>"

definition env_query_fails :: env where
  "env_query_fails = env_ok\<lparr>exit_query_of := (\<lambda>h. QueryFailed)\<rparr>"

definition env_all_exited :: env where
  "env_all_exited = env_ok\<lparr>exit_query_of := (\<lambda>h. ExitCode 0)\<rparr>"

definition env_terminate_fails :: env where
  "env_terminate_fails = env_ok\<lparr>terminate_ok := (\<lambda>h. False)\<rparr>"

text \<open>Every key of the registry is one of the ids 1 to \<open>m\<close>.\<close>

definition keys_upto :: "nat \<Rightarrow> shell \<Rightarrow> bool" where
  "keys_upto m s = (\<forall>p\<in>set (jobs s). 1 \<le> fst p \<and> fst p \<le> int m)"

text \<open>The notice that the poll prints for a finished job, and the events of a poll: for
  each finished job, in key order, the notice and the closing of its handle.\<close>

definition done_notice :: "int \<Rightarrow> Job \<Rightarrow> event" where
  "done_notice job_id j = Stdout (''['' @ show_int job_id @ ''] Done    '' @ command j @ nl)"

definition poll_events :: "env \<Rightarrow> (int \<times> Job) list \<Rightarrow> event list" where
  "poll_events e m =
     concat (map (\<lambda>p. if job_finished e (snd p)
                       then [done_notice (fst p) (snd p), CloseHandle (hProcess (snd p))]
                       else []) m)"

section \<open>Properties of the parser\<close>

lemma parse_tokens_Nil: "parse_tokens st [] = st"
  by (simp add: parse_tokens_def)

lemma parse_tokens_Cons: "parse_tokens st (t # ts) = parse_tokens (parse_step st t) ts"
  by (simp add: parse_tokens_def)

lemma operator_keeps_expect_input:
  "is_operator x \<Longrightarrow> expect_input_file st \<Longrightarrow> expect_input_file (parse_step st x)"
  by (auto simp: is_operator_def parse_step_def)

lemma operator_keeps_expect_output:
  "is_operator x \<Longrightarrow> expect_output_file st \<Longrightarrow> expect_output_file (parse_step st x)"
  by (auto simp: is_operator_def parse_step_def)

lemma operator_keeps_empty_stage:
  "is_operator x \<Longrightarrow> args (current_cmd st) = [] \<Longrightarrow>
   args (current_cmd (parse_step st x)) = [] \<and> commands (parse_step st x) = commands st"
  by (auto simp: is_operator_def parse_step_def)

lemma operators_keep_expect_input:
  "\<forall>x\<in>set ops. is_operator x \<Longrightarrow> expect_input_file st \<Longrightarrow>
   expect_input_file (parse_tokens st ops)"
  by (induction ops arbitrary: st)
     (simp_all add: parse_tokens_Nil parse_tokens_Cons operator_keeps_expect_input)

lemma operators_keep_expect_output:
  "\<forall>x\<in>set ops. is_operator x \<Longrightarrow> expect_output_file st \<Longrightarrow>
   expect_output_file (parse_tokens st ops)"
  by (induction ops arbitrary: st)
     (simp_all add: parse_tokens_Nil parse_tokens_Cons operator_keeps_expect_output)

lemma operators_keep_empty_stage:
  "\<forall>x\<in>set ops. is_operator x \<Longrightarrow> args (current_cmd st) = [] \<Longrightarrow>
   args (current_cmd (parse_tokens st ops)) = [] \<and> commands (parse_tokens st ops) = commands st"
proof (induction ops arbitrary: st)
  case Nil
  then show ?case by (simp add: parse_tokens_Nil)
next
  case (Cons x ops)
  from Cons.prems have x: "is_operator x" and rest: "\<forall>y\<in>set ops. is_operator y" by simp_all
  from operator_keeps_empty_stage [OF x Cons.prems(2)]
  have e: "args (current_cmd (parse_step st x)) = []"
    and c: "commands (parse_step st x) = commands st" by simp_all
  from Cons.IH [OF rest e] c show ?case by (simp add: parse_tokens_Cons)
qed

text \<open>A plain token reaches the last three branches of the chain.\<close>

lemma plain_step:
  "\<not> is_operator t \<Longrightarrow>
   parse_step st t =
     (if expect_input_file st then
        st\<lparr>current_cmd := (current_cmd st)\<lparr>input_file := t\<rparr>, expect_input_file := False\<rparr>
      else if expect_output_file st then
        st\<lparr>current_cmd := (current_cmd st)\<lparr>output_file := t\<rparr>, expect_output_file := False\<rparr>
      else st\<lparr>current_cmd := (current_cmd st)\<lparr>args := args (current_cmd st) @ [t]\<rparr>\<rparr>)"
  by (simp add: is_operator_def parse_step_def)

lemma redirect_then_pipe:
  assumes "op = ''<'' \<or> op = ''>'' \<or> op = ''>>''"
  shows "(op = ''<'' \<longrightarrow> expect_input_file (parse_tokens old [op, ''|'']))
       \<and> (op \<noteq> ''<'' \<longrightarrow> expect_output_file (parse_tokens old [op, ''|'']))
       \<and> (args (current_cmd old) \<noteq> [] \<longrightarrow>
            args (current_cmd (parse_tokens old [op, ''|''])) = []
          \<and> commands (parse_tokens old [op, ''|''])
              = commands old @ [current_cmd (parse_step old op)])"
  using assms by (auto simp: parse_tokens_def parse_step_def Command0_def)

text \<open>
  Claim C9. The pending-redirection flags are not reset at a \<^verbatim>\<open>|\<close>. Let the tokens of
  a line be \<open>pre\<close>, then a redirection operator \<open>op\<close> immediately followed by \<^verbatim>\<open>|\<close>, then
  operator tokens \<open>ops\<close> (possibly none), then the plain token \<open>t\<close>. When \<open>t\<close> is read a
  redirection is still pending; \<open>t\<close> is stored as a redirection file name of the stage
  under construction (the input file when an input redirection is pending, which is the
  case for \<^verbatim>\<open><\<close>, else the output file) and is not appended to its arguments. When the
  stage before the \<^verbatim>\<open>|\<close> had an argument, that stage was pushed and \<open>t\<close> belongs to the
  new stage, which still has no command name after \<open>t\<close>.
\<close>

theorem stale_redirection_after_pipe:
  assumes op: "op = ''<'' \<or> op = ''>'' \<or> op = ''>>''"
    and ops: "\<forall>x\<in>set ops. is_operator x"
    and t: "\<not> is_operator t"
  shows "let old = parse_tokens pstate0 pre;
             before = parse_tokens pstate0 (pre @ [op, ''|''] @ ops);
             after = parse_tokens pstate0 (pre @ [op, ''|''] @ ops @ [t])
         in (expect_input_file before \<or> expect_output_file before)
          \<and> args (current_cmd after) = args (current_cmd before)
          \<and> commands after = commands before
          \<and> (if expect_input_file before then input_file (current_cmd after) = t
              else output_file (current_cmd after) = t)
          \<and> (op = ''<'' \<longrightarrow> input_file (current_cmd after) = t)
          \<and> (args (current_cmd old) \<noteq> [] \<longrightarrow>
               args (current_cmd after) = []
             \<and> commands after = commands old @ [current_cmd (parse_step old op)])"
proof -
  define old where "old = parse_tokens pstate0 pre"
  define mid where "mid = parse_tokens old [op, ''|'']"
  define before where "before = parse_tokens mid ops"
  define after where "after = parse_step before t"
  have b: "parse_tokens pstate0 (pre @ [op, ''|''] @ ops) = before"
    by (simp add: before_def mid_def old_def parse_tokens_def)
  have a: "parse_tokens pstate0 (pre @ [op, ''|''] @ ops @ [t]) = after"
    by (simp add: after_def before_def mid_def old_def parse_tokens_def)
  note m = redirect_then_pipe [OF op, of old, folded mid_def]
  have pend_in: "op = ''<'' \<Longrightarrow> expect_input_file before"
    using m operators_keep_expect_input [OF ops, of mid] by (simp add: before_def)
  have pend_out: "op \<noteq> ''<'' \<Longrightarrow> expect_output_file before"
    using m operators_keep_expect_output [OF ops, of mid] by (simp add: before_def)
  have pend: "expect_input_file before \<or> expect_output_file before"
    using pend_in pend_out by blast
  have fresh: "args (current_cmd old) \<noteq> [] \<Longrightarrow>
      args (current_cmd before) = []
      \<and> commands before = commands old @ [current_cmd (parse_step old op)]"
    using m operators_keep_empty_stage [OF ops, of mid] by (simp add: before_def)
  have step: "args (current_cmd after) = args (current_cmd before)
      \<and> commands after = commands before
      \<and> (if expect_input_file before then input_file (current_cmd after) = t
          else output_file (current_cmd after) = t)"
    using pend by (auto simp: after_def plain_step [OF t])
  have "(expect_input_file before \<or> expect_output_file before)
          \<and> args (current_cmd after) = args (current_cmd before)
          \<and> commands after = commands before
          \<and> (if expect_input_file before then input_file (current_cmd after) = t
              else output_file (current_cmd after) = t)
          \<and> (op = ''<'' \<longrightarrow> input_file (current_cmd after) = t)
          \<and> (args (current_cmd old) \<noteq> [] \<longrightarrow>
               args (current_cmd after) = []
             \<and> commands after = commands old @ [current_cmd (parse_step old op)])"
    using pend step pend_in fresh by auto
  then show ?thesis
    unfolding Let_def a b old_def [symmetric] .
qed

text \<open>The example of the claim, \<^verbatim>\<open>a < | b c\<close>: the second stage has the input file
  \<^verbatim>\<open>b\<close> and the single argument \<^verbatim>\<open>c\<close>.\<close>

theorem stale_redirection_after_pipe_witness:
  "(''<'' = ''<'' \<or> ''<'' = ''>'' \<or> ''<'' = ''>>'')
   \<and> list_all is_operator []
   \<and> \<not> is_operator ''b''
   \<and> args (current_cmd (parse_tokens pstate0 [''a''])) \<noteq> []
   \<and> expect_input_file (parse_tokens pstate0 ([''a''] @ [''<'', ''|''] @ []))
   \<and> input_file (current_cmd (parse_tokens pstate0 ([''a''] @ [''<'', ''|''] @ [] @ [''b'']))) = ''b''
   \<and> args (current_cmd (parse_tokens pstate0 ([''a''] @ [''<'', ''|''] @ [] @ [''b'']))) = []
   \<and> tokenize ''a < | b c'' = [''a''] @ [''<'', ''|''] @ [] @ [''b''] @ [''c'']
   \<and> parse_input ''a < | b c'' =
        [Command0\<lparr>args := [''a'']\<rparr>, Command0\<lparr>args := [''c''], input_file := ''b''\<rparr>]"
proof -
  have h1: "''<'' = ''<'' \<or> ''<'' = ''>'' \<or> ''<'' = ''>>''" by simp
  have h2: "\<forall>x\<in>set ([]::string list). is_operator x" by simp
  have h3: "\<not> is_operator ''b''" by (simp add: is_operator_def)
  have h4: "args (current_cmd (parse_tokens pstate0 [''a''])) \<noteq> []" by code_simp
  have h5: "expect_input_file (parse_tokens pstate0 ([''a''] @ [''<'', ''|''] @ []))" by code_simp
  have tk: "tokenize ''a < | b c'' = [''a''] @ [''<'', ''|''] @ [] @ [''b''] @ [''c'']"
    by code_simp
  have ex: "parse_input ''a < | b c'' =
        [Command0\<lparr>args := [''a'']\<rparr>, Command0\<lparr>args := [''c''], input_file := ''b''\<rparr>]"
    by code_simp
  from stale_redirection_after_pipe [OF h1 h2 h3, of "[''a'']"] h4 h5
  have "input_file (current_cmd (parse_tokens pstate0 ([''a''] @ [''<'', ''|''] @ [] @ [''b'']))) = ''b''
      \<and> args (current_cmd (parse_tokens pstate0 ([''a''] @ [''<'', ''|''] @ [] @ [''b'']))) = []"
    unfolding Let_def by blast
  with h1 h3 h4 h5 tk ex show ?thesis by simp
qed

text \<open>
  Claim C10. When an input and an output redirection are both pending, a plain token
  \<open>t\<close> takes the input branch: it becomes the input file, only the input expectation
  is cleared, and the output file is left as it was while the output expectation stays
  pending. If the line ends there and the stage has an argument, the stage is pushed
  with that untouched output file; a further plain token \<open>u\<close> becomes the output file.
\<close>

theorem both_pending_input_first:
  assumes "expect_input_file st" and "expect_output_file st" and "\<not> is_operator t"
  shows "parse_step st t =
           st\<lparr>current_cmd := (current_cmd st)\<lparr>input_file := t\<rparr>, expect_input_file := False\<rparr>
       \<and> input_file (current_cmd (parse_step st t)) = t
       \<and> output_file (current_cmd (parse_step st t)) = output_file (current_cmd st)
       \<and> expect_output_file (parse_step st t)
       \<and> \<not> expect_input_file (parse_step st t)
       \<and> (args (current_cmd st) \<noteq> [] \<longrightarrow>
            parse_finish (parse_step st t)
              = commands st @ [(current_cmd st)\<lparr>input_file := t\<rparr>])
       \<and> (\<forall>u. \<not> is_operator u \<longrightarrow>
             output_file (current_cmd (parse_step (parse_step st t) u)) = u
           \<and> input_file (current_cmd (parse_step (parse_step st t) u)) = t)"
  using assms by (simp add: plain_step parse_finish_def)

text \<open>The example of the claim, \<^verbatim>\<open>a < > f\<close>, and the same line with one more token.\<close>

theorem both_pending_input_first_witness:
  "expect_input_file (parse_tokens pstate0 (tokenize ''a < >''))
   \<and> expect_output_file (parse_tokens pstate0 (tokenize ''a < >''))
   \<and> \<not> is_operator ''f''
   \<and> args (current_cmd (parse_tokens pstate0 (tokenize ''a < >''))) \<noteq> []
   \<and> \<not> is_operator ''g''
   \<and> input_file (current_cmd (parse_step (parse_tokens pstate0 (tokenize ''a < >'')) ''f'')) = ''f''
   \<and> expect_output_file (parse_step (parse_tokens pstate0 (tokenize ''a < >'')) ''f'')
   \<and> output_file (current_cmd
        (parse_step (parse_step (parse_tokens pstate0 (tokenize ''a < >'')) ''f'') ''g'')) = ''g''
   \<and> parse_input ''a < > f'' = [Command0\<lparr>args := [''a''], input_file := ''f''\<rparr>]
   \<and> parse_input ''a < > f g''
       = [Command0\<lparr>args := [''a''], input_file := ''f'', output_file := ''g''\<rparr>]"
proof -
  let ?st = "parse_tokens pstate0 (tokenize ''a < >'')"
  have h1: "expect_input_file ?st" by code_simp
  have h2: "expect_output_file ?st" by code_simp
  have h3: "\<not> is_operator ''f''" by (simp add: is_operator_def)
  have h4: "args (current_cmd ?st) \<noteq> []" by code_simp
  have h5: "\<not> is_operator ''g''" by (simp add: is_operator_def)
  have e1: "parse_input ''a < > f'' = [Command0\<lparr>args := [''a''], input_file := ''f''\<rparr>]"
    by code_simp
  have e2: "parse_input ''a < > f g''
       = [Command0\<lparr>args := [''a''], input_file := ''f'', output_file := ''g''\<rparr>]"
    by code_simp
  from both_pending_input_first [OF h1 h2 h3] h5
  have "input_file (current_cmd (parse_step ?st ''f'')) = ''f''
      \<and> expect_output_file (parse_step ?st ''f'')
      \<and> output_file (current_cmd (parse_step (parse_step ?st ''f'') ''g'')) = ''g''"
    by blast
  with h1 h2 h3 h4 h5 e1 e2 show ?thesis by blast
qed

section \<open>Properties of the decimal rendering\<close>

lemma digit_char_props:
  assumes "d < 10"
  shows "is_digit (digit_char d)" and "(of_char (digit_char d) :: int) - 48 = int d"
    and "\<not> is_space (digit_char d)" and "digit_char d \<noteq> CHR ''-''" and "digit_char d \<noteq> CHR ''+''"
proof -
  from assms have "d \<in> {0, 1, 2, 3, 4, 5, 6, 7, 8, 9}" by auto
  then show "is_digit (digit_char d)" and "(of_char (digit_char d) :: int) - 48 = int d"
    and "\<not> is_space (digit_char d)" and "digit_char d \<noteq> CHR ''-''" and "digit_char d \<noteq> CHR ''+''"
    by (auto simp: digit_char_def is_digit_def is_space_def)
qed

lemma show_nat_nonempty: "show_nat n \<noteq> []"
  by (subst show_nat.simps) simp

lemma show_nat_digits: "list_all is_digit (show_nat n)"
proof (induction n rule: show_nat.induct)
  case (1 n)
  show ?case
  proof (cases "n < 10")
    case True
    then show ?thesis by (subst show_nat.simps) (simp add: digit_char_props)
  next
    case False
    with "1.IH" show ?thesis by (subst show_nat.simps) (simp add: digit_char_props)
  qed
qed

lemma digits_value_snoc: "digits_value (ds @ [c]) = 10 * digits_value ds + (of_char c - 48)"
  by (simp add: digits_value_def)

lemma digits_value_show_nat: "digits_value (show_nat n) = int n"
proof (induction n rule: show_nat.induct)
  case (1 n)
  show ?case
  proof (cases "n < 10")
    case True
    then show ?thesis
      by (subst show_nat.simps) (simp add: digits_value_def digit_char_props)
  next
    case False
    have "digits_value (show_nat n)
        = 10 * digits_value (show_nat (n div 10)) + (of_char (digit_char (n mod 10)) - 48)"
      using False by (subst show_nat.simps) (simp add: digits_value_snoc)
    also have "\<dots> = 10 * int (n div 10) + int (n mod 10)"
      using "1.IH" False by (simp add: digit_char_props)
    also have "\<dots> = int n" by presburger
    finally show ?thesis .
  qed
qed

lemma hd_show_nat_digit: "is_digit (hd (show_nat n))"
  using show_nat_digits [of n] show_nat_nonempty [of n]
  by (cases "show_nat n") simp_all

lemma digit_not_space: "is_digit c \<Longrightarrow> \<not> is_space c"
  by (auto simp: is_digit_def is_space_def)

lemma digit_not_sign: "is_digit c \<Longrightarrow> c \<noteq> CHR ''-'' \<and> c \<noteq> CHR ''+''"
  by (auto simp: is_digit_def)

lemma takeWhile_digits:
  assumes "list_all is_digit ds" and "junk = [] \<or> \<not> is_digit (hd junk)"
  shows "takeWhile is_digit (ds @ junk) = ds"
proof -
  from assms(2) have "takeWhile is_digit junk = []" by (cases junk) auto
  with assms(1) show ?thesis by (simp add: takeWhile_append2 list_all_iff)
qed

lemma show_nat_inject:
  assumes "show_nat m = show_nat n"
  shows "m = n"
proof -
  have "int m = digits_value (show_nat m)" by (simp only: digits_value_show_nat)
  also have "\<dots> = digits_value (show_nat n)" by (simp only: assms)
  also have "\<dots> = int n" by (simp only: digits_value_show_nat)
  finally show ?thesis by simp
qed

lemma show_int_inject: "show_int i = show_int k \<Longrightarrow> i = k"
proof -
  assume eq: "show_int i = show_int k"
  have neg: "hd (show_int x) = CHR ''-''" if "x < 0" for x
    using that by (simp add: show_int_def)
  have pos: "hd (show_int x) \<noteq> CHR ''-''" if "\<not> x < 0" for x
    using that hd_show_nat_digit [of "nat x"] digit_not_sign by (auto simp: show_int_def)
  show ?thesis
  proof (cases "i < 0")
    case True
    with eq neg [OF True] pos [of k] have k: "k < 0" by auto
    with True eq have "show_nat (nat (- i)) = show_nat (nat (- k))" by (simp add: show_int_def)
    then have "nat (- i) = nat (- k)" by (rule show_nat_inject)
    with True k show ?thesis by simp
  next
    case False
    with eq neg [of k] pos [OF False] have k: "\<not> k < 0" by auto
    with False eq have "show_nat (nat i) = show_nat (nat k)" by (simp add: show_int_def)
    then have "nat i = nat k" by (rule show_nat_inject)
    with False k show ?thesis by simp
  qed
qed

lemma show_int_no_bracket: "CHR '']'' \<notin> set (show_int i)"
proof -
  have d: "\<not> is_digit CHR '']''" by (simp add: is_digit_def)
  have "CHR '']'' \<notin> set (show_nat n)" for n
    using show_nat_digits [of n] d by (auto simp: list_all_iff)
  then show ?thesis by (simp add: show_int_def)
qed

lemma digit_is_digit_char:
  assumes "is_digit c"
  shows "\<exists>d<10. c = digit_char d"
proof -
  define d where "d = of_char c - (48::nat)"
  from assms have d: "d < 10" and oc: "of_char c = 48 + d"
    by (auto simp: is_digit_def d_def)
  from d have "d \<in> {0, 1, 2, 3, 4, 5, 6, 7, 8, 9}" by auto
  then have "(of_char (digit_char d) :: nat) = 48 + d"
    by (auto simp: digit_char_def)
  with oc have "(of_char c :: nat) = of_char (digit_char d)" by simp
  then have "c = digit_char d" by simp
  with d show ?thesis by blast
qed

lemma show_nat_small: "d < 10 \<Longrightarrow> show_nat d = [digit_char d]"
  by (subst show_nat.simps) simp

lemma show_nat_snoc: "0 < n \<Longrightarrow> d < 10 \<Longrightarrow> show_nat (10 * n + d) = show_nat n @ [digit_char d]"
  by (subst show_nat.simps) simp

text \<open>Every non-empty string of digits is the rendering of a number after some
  zeros.\<close>

lemma digit_string_form:
  assumes "list_all is_digit ds" and "ds \<noteq> []"
  shows "\<exists>k n. ds = replicate k CHR ''0'' @ show_nat n"
  using assms
proof (induction ds rule: rev_induct)
  case Nil
  then show ?case by simp
next
  case (snoc c ds)
  from snoc.prems have "is_digit c" and all: "list_all is_digit ds" by simp_all
  from digit_is_digit_char [OF this(1)] obtain d where d: "d < 10" "c = digit_char d" by blast
  show ?case
  proof (cases "ds = []")
    case True
    with d have "ds @ [c] = replicate 0 CHR ''0'' @ show_nat d" by (simp add: show_nat_small)
    then show ?thesis by blast
  next
    case False
    from snoc.IH [OF all False] obtain k n where ds: "ds = replicate k CHR ''0'' @ show_nat n"
      by blast
    show ?thesis
    proof (cases "n = 0")
      case True
      have z: "show_nat 0 = [CHR ''0'']" by (simp add: show_nat_small digit_char_def)
      have "ds @ [c] = replicate (Suc k) CHR ''0'' @ show_nat d"
        using ds True d z by (simp add: show_nat_small replicate_append_same)
      then show ?thesis by blast
    next
      case False
      then have "ds @ [c] = replicate k CHR ''0'' @ show_nat (10 * n + d)"
        using ds d by (simp add: show_nat_snoc)
      then show ?thesis by blast
    qed
  qed
qed

lemma digits_value_zeros: "digits_value (replicate k CHR ''0'' @ ds) = digits_value ds"
  by (induction k) (simp_all add: digits_value_def)

lemma zeros_digits: "list_all is_digit (replicate k CHR ''0'' @ show_nat n)"
  using show_nat_digits [of n] by (auto simp: list_all_iff is_digit_def)

section \<open>Properties of the job registry\<close>

lemma map_find_assign:
  "map_find (map_assign k v m) k' = (if k' = k then Some v else map_find m k')"
  by (induction m) (auto simp: map_find_def)

lemma keys_assign: "fst ` set (map_assign k v m) = insert k (fst ` set m)"
  by (induction k v m rule: map_assign.induct) (simp_all add: insert_commute)

lemma wf_jobs_assign: "wf_jobs m \<Longrightarrow> wf_jobs (map_assign k v m)"
proof (induction m)
  case Nil
  then show ?case by (simp add: wf_jobs_def)
next
  case (Cons p m)
  obtain k' v' where p: "p = (k', v')" by (cases p)
  from Cons.prems have tl: "wf_jobs m" and hd: "\<forall>x\<in>fst ` set m. k' < x"
    by (auto simp: wf_jobs_def p)
  show ?case
  proof (cases "k < k'")
    case True
    with Cons.prems show ?thesis by (auto simp: wf_jobs_def p)
  next
    case False
    show ?thesis
    proof (cases "k = k'")
      case True
      with Cons.prems show ?thesis by (auto simp: wf_jobs_def p)
    next
      case ne: False
      with False have "k' < k" by simp
      with hd have "\<forall>x\<in>fst ` set (map_assign k v m). k' < x"
        by (simp add: keys_assign)
      with Cons.IH [OF tl] False ne show ?thesis
        by (auto simp: wf_jobs_def p)
    qed
  qed
qed

lemma map_find_erase:
  "map_find (map_erase k m) k' = (if k' = k then None else map_find m k')"
  by (induction m) (auto simp: map_find_def map_erase_def)

lemma wf_jobs_filter: "wf_jobs m \<Longrightarrow> wf_jobs (filter P m)"
  by (induction m) (auto simp: wf_jobs_def)

lemma wf_jobs_erase: "wf_jobs m \<Longrightarrow> wf_jobs (map_erase k m)"
  by (simp add: map_erase_def wf_jobs_filter)

lemma wf_jobs_distinct: "wf_jobs m \<Longrightarrow> distinct (map fst m)"
  by (simp add: wf_jobs_def strict_sorted_iff)

lemma wf_jobs_find: "wf_jobs m \<Longrightarrow> (k, j) \<in> set m \<longleftrightarrow> map_find m k = Some j"
  by (auto simp: map_find_def dest: wf_jobs_distinct map_of_SomeD)

lemma poll_jobs_ids:
  "snd (poll_jobs e m) = map fst (filter (\<lambda>p. job_finished e (snd p)) m)"
  by (induction m) (auto simp: job_finished_def split: prod.splits exit_query.splits)

lemma remove_all_jobs:
  "jobs (foldl (\<lambda>s' job_id. remove_job job_id s') s ids)
     = filter (\<lambda>p. fst p \<notin> set ids) (jobs s)"
  by (induction ids arbitrary: s) (auto simp: remove_job_def map_erase_def intro: filter_cong)

lemma remove_all_counter:
  "job_counter (foldl (\<lambda>s' job_id. remove_job job_id s') s ids) = job_counter s"
  by (induction ids arbitrary: s) (auto simp: remove_job_def)

lemma check_background_jobs_counter:
  "job_counter (check_background_jobs e s) = job_counter s"
  by (simp add: check_background_jobs_def remove_all_counter emit_def split: prod.splits)

lemma check_background_jobs_jobs:
  assumes "wf_jobs (jobs s)"
  shows "jobs (check_background_jobs e s) = filter (\<lambda>p. \<not> job_finished e (snd p)) (jobs s)"
proof -
  have d: "distinct (map fst (jobs s))" using assms by (rule wf_jobs_distinct)
  have "jobs (check_background_jobs e s)
      = filter (\<lambda>p. fst p \<notin> set (snd (poll_jobs e (jobs s)))) (jobs s)"
    by (simp add: check_background_jobs_def remove_all_jobs emit_def split: prod.splits)
  also have "\<dots> = filter (\<lambda>p. \<not> job_finished e (snd p)) (jobs s)"
  proof (rule filter_cong [OF refl])
    fix p assume p: "p \<in> set (jobs s)"
    have "fst p \<in> set (snd (poll_jobs e (jobs s))) \<longleftrightarrow> job_finished e (snd p)"
    proof
      assume "fst p \<in> set (snd (poll_jobs e (jobs s)))"
      then obtain q where q: "q \<in> set (jobs s)" "job_finished e (snd q)" "fst q = fst p"
        by (auto simp: poll_jobs_ids)
      from d p q(1) q(3) have "q = p"
        by (metis eq_key_imp_eq_value prod.collapse)
      with q(2) show "job_finished e (snd p)" by simp
    next
      assume "job_finished e (snd p)"
      with p show "fst p \<in> set (snd (poll_jobs e (jobs s)))"
        by (auto simp: poll_jobs_ids)
    qed
    then show "(fst p \<notin> set (snd (poll_jobs e (jobs s)))) = (\<not> job_finished e (snd p))"
      by simp
  qed
  finally show ?thesis .
qed

lemma map_find_filter_snd:
  "wf_jobs m \<Longrightarrow>
   map_find (filter (\<lambda>p. P (snd p)) m) k
     = (case map_find m k of None \<Rightarrow> None | Some j \<Rightarrow> if P j then Some j else None)"
proof -
  assume w: "wf_jobs m"
  show ?thesis
  proof (cases "map_find m k")
    case None
    then have "k \<notin> fst ` set m" by (simp add: map_find_def map_of_eq_None_iff)
    then have "k \<notin> fst ` set (filter (\<lambda>p. P (snd p)) m)" by auto
    then have "map_find (filter (\<lambda>p. P (snd p)) m) k = None"
      by (simp add: map_find_def map_of_eq_None_iff)
    with None show ?thesis by simp
  next
    case (Some j)
    with w have in_m: "(k, j) \<in> set m" by (simp add: wf_jobs_find)
    show ?thesis
    proof (cases "P j")
      case True
      with in_m have "(k, j) \<in> set (filter (\<lambda>p. P (snd p)) m)" by simp
      with wf_jobs_filter [OF w, of "\<lambda>p. P (snd p)"]
      have "map_find (filter (\<lambda>p. P (snd p)) m) k = Some j"
        using wf_jobs_find [of "filter (\<lambda>p. P (snd p)) m" k j] by simp
      with Some True show ?thesis by simp
    next
      case False
      have "k \<notin> fst ` set (filter (\<lambda>p. P (snd p)) m)"
      proof
        assume "k \<in> fst ` set (filter (\<lambda>p. P (snd p)) m)"
        then obtain j' where j': "(k, j') \<in> set m" "P j'" by auto
        with w Some have "j' = j" by (simp add: wf_jobs_find)
        with j' False show False by simp
      qed
      then have "map_find (filter (\<lambda>p. P (snd p)) m) k = None"
        by (simp add: map_find_def map_of_eq_None_iff)
      with Some False show ?thesis by simp
    qed
  qed
qed

lemma poll_jobs_events: "fst (poll_jobs e m) = poll_events e m"
  by (induction m)
     (auto simp: poll_events_def done_notice_def job_finished_def
           split: prod.splits exit_query.splits)

lemma remove_all_state:
  "foldl (\<lambda>s' job_id. remove_job job_id s') s ids
     = s\<lparr>jobs := filter (\<lambda>p. fst p \<notin> set ids) (jobs s)\<rparr>"
proof (induction ids arbitrary: s)
  case Nil
  then show ?case by simp
next
  case (Cons job_id ids)
  have "foldl (\<lambda>s' job_id. remove_job job_id s') s (job_id # ids)
      = foldl (\<lambda>s' job_id. remove_job job_id s') (remove_job job_id s) ids"
    by simp
  also have "\<dots> = (remove_job job_id s)
        \<lparr>jobs := filter (\<lambda>p. fst p \<notin> set ids) (jobs (remove_job job_id s))\<rparr>"
    by (rule Cons.IH)
  also have "\<dots> = s\<lparr>jobs := filter (\<lambda>p. fst p \<notin> set (job_id # ids)) (jobs s)\<rparr>"
    by (auto simp: remove_job_def map_erase_def intro: filter_cong)
  finally show ?case .
qed

text \<open>The whole effect of a poll: the finished jobs are removed, and the notice and the
  closing of the handle of each of them are the only events.\<close>

lemma check_background_jobs_state:
  assumes "wf_jobs (jobs s)"
  shows "check_background_jobs e s
           = s\<lparr>jobs := filter (\<lambda>p. \<not> job_finished e (snd p)) (jobs s),
               trace := trace s @ poll_events e (jobs s)\<rparr>"
proof -
  have "check_background_jobs e s
      = s\<lparr>jobs := filter (\<lambda>p. fst p \<notin> set (snd (poll_jobs e (jobs s)))) (jobs s),
          trace := trace s @ fst (poll_jobs e (jobs s))\<rparr>"
    by (simp add: check_background_jobs_def remove_all_state emit_def split: prod.splits)
  also have "filter (\<lambda>p. fst p \<notin> set (snd (poll_jobs e (jobs s)))) (jobs s)
      = jobs (check_background_jobs e s)"
    by (simp add: check_background_jobs_def remove_all_jobs emit_def split: prod.splits)
  finally show ?thesis
    by (simp add: check_background_jobs_jobs [OF assms] poll_jobs_events)
qed

lemma poll_events_members:
  assumes "x \<in> set (poll_events e m)"
  shows "\<exists>p\<in>set m. job_finished e (snd p)
           \<and> (x = done_notice (fst p) (snd p) \<or> x = CloseHandle (hProcess (snd p)))"
  using assms by (auto simp: poll_events_def split: if_splits)

lemma split_at_first:
  assumes "c \<notin> set xs" and "c \<notin> set xs'" and "xs @ c # ys = xs' @ c # ys'"
  shows "xs = xs' \<and> ys = ys'"
proof -
  have tw: "c \<notin> set zs \<Longrightarrow> takeWhile (\<lambda>x. x \<noteq> c) (zs @ c # ws) = zs" for zs ws
    by (induction zs) auto
  have "takeWhile (\<lambda>x. x \<noteq> c) (xs @ c # ys) = xs"
    using assms(1) by (rule tw)
  moreover have "takeWhile (\<lambda>x. x \<noteq> c) (xs' @ c # ys') = xs'"
    using assms(2) by (rule tw)
  ultimately have "xs = xs'" using assms(3) by simp
  with assms(3) show ?thesis by simp
qed

lemma done_notice_inject:
  assumes "done_notice i j = done_notice i' j'"
  shows "i = i' \<and> command j = command j'"
proof -
  from assms
  have "show_int i @ CHR '']'' # ('' Done    '' @ command j @ nl)
      = show_int i' @ CHR '']'' # ('' Done    '' @ command j' @ nl)"
    by (simp add: done_notice_def)
  from split_at_first [OF show_int_no_bracket show_int_no_bracket this]
  have "show_int i = show_int i'"
    and "'' Done    '' @ command j @ nl = '' Done    '' @ command j' @ nl"
    by simp_all
  then show ?thesis by (simp add: show_int_inject)
qed

text \<open>
  Claim C3, amended. For a registry with unique keys, the poll removes exactly the jobs
  whose handle is not \<^verbatim>\<open>NULL\<close> and whose query succeeds with an exit code other than
  \<^verbatim>\<open>STILL_ACTIVE\<close>; the notice and the closing of the handle of each of them are its
  only events and nothing else of the state changes. So a tracked job whose query fails
  stays in the registry as it was, its notice is not printed, its handle is not closed,
  and the next poll decides about it again from the answer it then gets; when every
  query fails the poll changes nothing at all.
\<close>

theorem failed_query_keeps_job:
  assumes "wf_jobs (jobs s)" and "map_find (jobs s) job_id = Some j"
  shows "check_background_jobs e s
           = s\<lparr>jobs := filter (\<lambda>p. \<not> job_finished e (snd p)) (jobs s),
               trace := trace s @ poll_events e (jobs s)\<rparr>
       \<and> (exit_query_of e (hProcess j) = QueryFailed \<longrightarrow>
            map_find (jobs (check_background_jobs e s)) job_id = Some j
          \<and> Stdout (''['' @ show_int job_id @ ''] Done    '' @ command j @ nl)
              \<notin> set (new_events s (check_background_jobs e s))
          \<and> CloseHandle (hProcess j) \<notin> set (new_events s (check_background_jobs e s))
          \<and> (\<forall>e'. map_find (jobs (check_background_jobs e' (check_background_jobs e s))) job_id
                    = (if hProcess j \<noteq> NULL
                          \<and> (\<exists>c. exit_query_of e' (hProcess j) = ExitCode c \<and> c \<noteq> STILL_ACTIVE)
                       then None else Some j)))
       \<and> ((\<forall>p\<in>set (jobs s). exit_query_of e (hProcess (snd p)) = QueryFailed) \<longrightarrow>
            check_background_jobs e s = s)
       \<and> (map_find (jobs (check_background_jobs e s)) job_id = None \<longleftrightarrow>
            hProcess j \<noteq> NULL \<and>
            (\<exists>c. exit_query_of e (hProcess j) = ExitCode c \<and> c \<noteq> STILL_ACTIVE))"
proof -
  note st = check_background_jobs_state [OF assms(1)]
  have fin: "job_finished e' j \<longleftrightarrow>
      hProcess j \<noteq> NULL \<and> (\<exists>c. exit_query_of e' (hProcess j) = ExitCode c \<and> c \<noteq> STILL_ACTIVE)"
    for e'
    by (auto simp: job_finished_def split: exit_query.splits)
  have find: "map_find (jobs (check_background_jobs e s)) job_id
      = (if job_finished e j then None else Some j)"
    using assms map_find_filter_snd [of "jobs s" "\<lambda>j. \<not> job_finished e j" job_id]
    by (simp add: check_background_jobs_jobs)
  have ne: "new_events s (check_background_jobs e s) = poll_events e (jobs s)"
    by (subst st) (simp add: new_events_def)
  have in_m: "(job_id, j) \<in> set (jobs s)" using assms by (simp add: wf_jobs_find)
  have kept: "map_find (jobs (check_background_jobs e s)) job_id = Some j"
    and no_notice: "Stdout (''['' @ show_int job_id @ ''] Done    '' @ command j @ nl)
              \<notin> set (new_events s (check_background_jobs e s))"
    and no_close: "CloseHandle (hProcess j) \<notin> set (new_events s (check_background_jobs e s))"
    and again: "\<forall>e'. map_find (jobs (check_background_jobs e' (check_background_jobs e s))) job_id
                    = (if hProcess j \<noteq> NULL
                          \<and> (\<exists>c. exit_query_of e' (hProcess j) = ExitCode c \<and> c \<noteq> STILL_ACTIVE)
                       then None else Some j)"
    if q: "exit_query_of e (hProcess j) = QueryFailed"
  proof -
    from q have nf: "\<not> job_finished e j" by (simp add: job_finished_def)
    with find show k: "map_find (jobs (check_background_jobs e s)) job_id = Some j" by simp
    show "Stdout (''['' @ show_int job_id @ ''] Done    '' @ command j @ nl)
              \<notin> set (new_events s (check_background_jobs e s))"
    proof
      assume "Stdout (''['' @ show_int job_id @ ''] Done    '' @ command j @ nl)
              \<in> set (new_events s (check_background_jobs e s))"
      then have "done_notice job_id j \<in> set (poll_events e (jobs s))"
        by (simp add: ne done_notice_def)
      from poll_events_members [OF this] obtain p where
        p: "p \<in> set (jobs s)" "job_finished e (snd p)"
          "done_notice job_id j = done_notice (fst p) (snd p)"
        by (auto simp: done_notice_def)
      from done_notice_inject [OF p(3)] have "fst p = job_id" by simp
      with p(1) have "(job_id, snd p) \<in> set (jobs s)" by (metis prod.collapse)
      with assms have "snd p = j" by (simp add: wf_jobs_find)
      with p(2) nf show False by simp
    qed
    show "CloseHandle (hProcess j) \<notin> set (new_events s (check_background_jobs e s))"
    proof
      assume "CloseHandle (hProcess j) \<in> set (new_events s (check_background_jobs e s))"
      then have "CloseHandle (hProcess j) \<in> set (poll_events e (jobs s))" by (simp add: ne)
      from poll_events_members [OF this] obtain p where
        p: "job_finished e (snd p)" "hProcess (snd p) = hProcess j"
        by (auto simp: done_notice_def)
      then show False using q by (auto simp: job_finished_def)
    qed
    have w': "wf_jobs (jobs (check_background_jobs e s))"
      using assms(1) by (simp add: check_background_jobs_jobs wf_jobs_filter)
    show "\<forall>e'. map_find (jobs (check_background_jobs e' (check_background_jobs e s))) job_id
                    = (if hProcess j \<noteq> NULL
                          \<and> (\<exists>c. exit_query_of e' (hProcess j) = ExitCode c \<and> c \<noteq> STILL_ACTIVE)
                       then None else Some j)"
    proof
      fix e'
      have "map_find (jobs (check_background_jobs e' (check_background_jobs e s))) job_id
          = (if job_finished e' j then None else Some j)"
        using w' k
          map_find_filter_snd [of "jobs (check_background_jobs e s)" "\<lambda>j. \<not> job_finished e' j" job_id]
        by (simp add: check_background_jobs_jobs)
      then show "map_find (jobs (check_background_jobs e' (check_background_jobs e s))) job_id
                    = (if hProcess j \<noteq> NULL
                          \<and> (\<exists>c. exit_query_of e' (hProcess j) = ExitCode c \<and> c \<noteq> STILL_ACTIVE)
                       then None else Some j)"
        by (simp only: fin)
    qed
  qed
  have all_fail: "check_background_jobs e s = s"
    if a: "\<forall>p\<in>set (jobs s). exit_query_of e (hProcess (snd p)) = QueryFailed"
  proof -
    from a have nf: "\<forall>p\<in>set (jobs s). \<not> job_finished e (snd p)"
      by (simp add: job_finished_def)
    then have "filter (\<lambda>p. \<not> job_finished e (snd p)) (jobs s) = jobs s" by simp
    moreover from nf have "poll_events e (jobs s) = []" by (simp add: poll_events_def)
    ultimately show ?thesis by (simp add: st)
  qed
  have gone: "map_find (jobs (check_background_jobs e s)) job_id = None \<longleftrightarrow>
            hProcess j \<noteq> NULL \<and>
            (\<exists>c. exit_query_of e (hProcess j) = ExitCode c \<and> c \<noteq> STILL_ACTIVE)"
    using find fin [of e] by simp
  show ?thesis
    using st kept no_notice no_close again all_fail gone by blast
qed

text \<open>
  Claim C3 says that a job whose exit-status query fails is treated as completed and
  removed. It is not: with one tracked job and a failing query the poll returns the
  state it was given, the job still in the registry.
\<close>

theorem failed_query_removes_job_counterexample:
  "map_find (jobs (add_job (H 0) 1000 ''ping'' WindowsShell)) 1
     = Some \<lparr>hProcess = H 0, processId = 1000, command = ''ping'', completed = False\<rparr>
   \<and> exit_query_of env_query_fails (H 0) = QueryFailed
   \<and> map_find (jobs (check_background_jobs env_query_fails
                        (add_job (H 0) 1000 ''ping'' WindowsShell))) 1
     = Some \<lparr>hProcess = H 0, processId = 1000, command = ''ping'', completed = False\<rparr>
   \<and> check_background_jobs env_query_fails (add_job (H 0) 1000 ''ping'' WindowsShell)
     = add_job (H 0) 1000 ''ping'' WindowsShell"
  by code_simp

text \<open>One job, polled with a failing query (kept, no notice, handle not closed) and
  with exit code 0 (removed).\<close>

theorem failed_query_keeps_job_witness:
  "wf_jobs (jobs (add_job (H 0) 1000 ''ping'' WindowsShell))
   \<and> map_find (jobs (add_job (H 0) 1000 ''ping'' WindowsShell)) 1
       = Some \<lparr>hProcess = H 0, processId = 1000, command = ''ping'', completed = False\<rparr>
   \<and> exit_query_of env_query_fails (H 0) = QueryFailed
   \<and> map_find (jobs (check_background_jobs env_query_fails
                        (add_job (H 0) 1000 ''ping'' WindowsShell))) 1
       = Some \<lparr>hProcess = H 0, processId = 1000, command = ''ping'', completed = False\<rparr>
   \<and> Stdout (''['' @ show_int 1 @ ''] Done    '' @ ''ping'' @ nl)
       \<notin> set (new_events (add_job (H 0) 1000 ''ping'' WindowsShell)
                 (check_background_jobs env_query_fails (add_job (H 0) 1000 ''ping'' WindowsShell)))
   \<and> CloseHandle (H 0)
       \<notin> set (new_events (add_job (H 0) 1000 ''ping'' WindowsShell)
                 (check_background_jobs env_query_fails (add_job (H 0) 1000 ''ping'' WindowsShell)))
   \<and> exit_query_of env_all_exited (H 0) = ExitCode 0
   \<and> map_find (jobs (check_background_jobs env_all_exited
                        (add_job (H 0) 1000 ''ping'' WindowsShell))) 1 = None
   \<and> new_events (add_job (H 0) 1000 ''ping'' WindowsShell)
        (check_background_jobs env_all_exited (add_job (H 0) 1000 ''ping'' WindowsShell))
       = [Stdout (''['' @ show_int 1 @ ''] Done    '' @ ''ping'' @ nl), CloseHandle (H 0)]"
proof -
  let ?s = "add_job (H 0) 1000 ''ping'' WindowsShell"
  let ?j = "\<lparr>hProcess = H 0, processId = 1000, command = ''ping'', completed = False\<rparr>"
  have w: "wf_jobs (jobs ?s)" by code_simp
  have f: "map_find (jobs ?s) 1 = Some ?j" by code_simp
  have q: "exit_query_of env_query_fails (hProcess ?j) = QueryFailed" by code_simp
  have q': "exit_query_of env_query_fails (H 0) = QueryFailed" by code_simp
  have x: "exit_query_of env_all_exited (H 0) = ExitCode 0" by code_simp
  have x': "hProcess ?j \<noteq> NULL
      \<and> (\<exists>c. exit_query_of env_all_exited (hProcess ?j) = ExitCode c \<and> c \<noteq> STILL_ACTIVE)"
  proof
    show "hProcess ?j \<noteq> NULL" by simp
    have "exit_query_of env_all_exited (hProcess ?j) = ExitCode 0 \<and> (0::nat) \<noteq> STILL_ACTIVE"
      by code_simp
    then show "\<exists>c. exit_query_of env_all_exited (hProcess ?j) = ExitCode c \<and> c \<noteq> STILL_ACTIVE"
      by (rule exI)
  qed
  have ev: "new_events ?s (check_background_jobs env_all_exited ?s)
       = [Stdout (''['' @ show_int 1 @ ''] Done    '' @ ''ping'' @ nl), CloseHandle (H 0)]"
    by code_simp
  note t = failed_query_keeps_job [OF w f, of env_query_fails]
  note k = t [THEN conjunct2, THEN conjunct1, THEN mp, OF q]
  have a: "map_find (jobs (check_background_jobs env_query_fails ?s)) 1 = Some ?j"
    by (rule k [THEN conjunct1])
  have n: "Stdout (''['' @ show_int 1 @ ''] Done    '' @ ''ping'' @ nl)
       \<notin> set (new_events ?s (check_background_jobs env_query_fails ?s))"
    using k [THEN conjunct2, THEN conjunct1] by simp
  have c: "CloseHandle (H 0) \<notin> set (new_events ?s (check_background_jobs env_query_fails ?s))"
    using k [THEN conjunct2, THEN conjunct2, THEN conjunct1] by simp
  note t' = failed_query_keeps_job [OF w f, of env_all_exited]
  have b: "map_find (jobs (check_background_jobs env_all_exited ?s)) 1 = None"
    by (rule t' [THEN conjunct2, THEN conjunct2, THEN conjunct2, THEN iffD2, OF x'])
  show ?thesis
    by (intro conjI) (fact w f q' a n c x b ev)+
qed

text \<open>
  Claim C7. When the argument of \<^verbatim>\<open>fg\<close> or \<^verbatim>\<open>kill\<close> is read as a job id that is not
  in the registry, the only effect is the not-found message on the error stream: the
  state, and so the registry, is otherwise unchanged. When \<^verbatim>\<open>kill\<close> finds the job and
  \<^verbatim>\<open>TerminateProcess\<close> fails, the only effects are that call and the error message, and
  the entry stays in place.
\<close>

theorem unknown_job_reported:
  assumes "2 \<le> length as" and "stoi (as ! 1) = Inr job_id"
  shows "(map_find (jobs s) job_id = None \<longrightarrow>
            builtin_fg as s = emit [Stderr (''fg: job not found'' @ nl)] s
          \<and> builtin_kill e as s = emit [Stderr (''kill: job not found'' @ nl)] s
          \<and> jobs (builtin_fg as s) = jobs s
          \<and> jobs (builtin_kill e as s) = jobs s)
       \<and> (\<forall>j. map_find (jobs s) job_id = Some j \<and> \<not> terminate_ok e (hProcess j) \<longrightarrow>
            builtin_kill e as s
              = emit [TerminateProcess (hProcess j) False,
                      Stderr (''kill: failed to terminate process'' @ nl)] s
          \<and> jobs (builtin_kill e as s) = jobs s
          \<and> map_find (jobs (builtin_kill e as s)) job_id = Some j)"
  using assms by (simp add: builtin_fg_def builtin_kill_def emit_def)

text \<open>\<^verbatim>\<open>fg 7\<close> and \<^verbatim>\<open>kill 7\<close> with job 1 only, and \<^verbatim>\<open>kill 1\<close> when termination is
  refused.\<close>

theorem unknown_job_reported_witness:
  "2 \<le> length [''fg'', ''7'']
   \<and> stoi ([''fg'', ''7''] ! 1) = Inr 7
   \<and> map_find (jobs (add_job (H 0) 1000 ''ping'' WindowsShell)) 7 = None
   \<and> builtin_fg [''fg'', ''7''] (add_job (H 0) 1000 ''ping'' WindowsShell)
       = emit [Stderr (''fg: job not found'' @ nl)] (add_job (H 0) 1000 ''ping'' WindowsShell)
   \<and> builtin_kill env_ok [''fg'', ''7''] (add_job (H 0) 1000 ''ping'' WindowsShell)
       = emit [Stderr (''kill: job not found'' @ nl)] (add_job (H 0) 1000 ''ping'' WindowsShell)
   \<and> stoi ([''kill'', ''1''] ! 1) = Inr 1
   \<and> map_find (jobs (add_job (H 0) 1000 ''ping'' WindowsShell)) 1
       = Some \<lparr>hProcess = H 0, processId = 1000, command = ''ping'', completed = False\<rparr>
   \<and> \<not> terminate_ok env_terminate_fails (H 0)
   \<and> jobs (builtin_kill env_terminate_fails [''kill'', ''1'']
              (add_job (H 0) 1000 ''ping'' WindowsShell))
       = jobs (add_job (H 0) 1000 ''ping'' WindowsShell)"
proof -
  let ?s = "add_job (H 0) 1000 ''ping'' WindowsShell"
  let ?j = "\<lparr>hProcess = H 0, processId = 1000, command = ''ping'', completed = False\<rparr>"
  have l: "2 \<le> length [''fg'', ''7'']" by simp
  have p: "stoi ([''fg'', ''7''] ! 1) = Inr 7" by code_simp
  have a: "map_find (jobs ?s) 7 = None" by code_simp
  have l': "2 \<le> length [''kill'', ''1'']" by simp
  have p': "stoi ([''kill'', ''1''] ! 1) = Inr 1" by code_simp
  have f: "map_find (jobs ?s) 1 = Some ?j" by code_simp
  have t: "\<not> terminate_ok env_terminate_fails (hProcess ?j)" by code_simp
  from unknown_job_reported [OF l p, of ?s env_ok] a
  have r1: "builtin_fg [''fg'', ''7''] ?s = emit [Stderr (''fg: job not found'' @ nl)] ?s
          \<and> builtin_kill env_ok [''fg'', ''7''] ?s = emit [Stderr (''kill: job not found'' @ nl)] ?s"
    by blast
  from unknown_job_reported [OF l' p', of ?s env_terminate_fails] f t
  have r2: "jobs (builtin_kill env_terminate_fails [''kill'', ''1''] ?s) = jobs ?s"
    by blast
  from l p a r1 p' f t r2 show ?thesis by simp
qed

subsection \<open>Job ids\<close>

lemma int32_id: "INT_MIN \<le> x \<Longrightarrow> x \<le> INT_MAX \<Longrightarrow> int32 x = x"
  by (simp add: int32_def INT_MIN_def INT_MAX_def)

lemma int32_wrap: "int32 (INT_MAX + 1) = INT_MIN"
  by (simp add: int32_def INT_MIN_def INT_MAX_def)

lemma map_assign_append: "\<forall>p\<in>set m. fst p < k \<Longrightarrow> map_assign k v m = m @ [(k, v)]"
  by (induction k v m rule: map_assign.induct) auto

lemma filter_keys_assign:
  "k \<notin> S \<Longrightarrow> fst ` set m \<subseteq> S \<Longrightarrow>
   filter (\<lambda>x. x \<notin> S) (map fst (map_assign k v m)) = [k]"
  by (induction k v m rule: map_assign.induct) (auto simp: filter_empty_conv)

lemma new_keys_assign: "k \<notin> fst ` set m \<Longrightarrow> new_keys m (map_assign k v m) = [k]"
  unfolding new_keys_def using filter_keys_assign [of k "fst ` set m" m v] by simp

lemma new_keys_subset: "set after \<subseteq> set before \<Longrightarrow> new_keys before after = []"
  by (auto simp: new_keys_def filter_empty_conv)

lemma builtin_fg_counter: "job_counter (builtin_fg as s) = job_counter s"
  by (simp add: builtin_fg_def emit_def remove_job_def split: sum.splits option.splits)

lemma builtin_kill_counter: "job_counter (builtin_kill e as s) = job_counter s"
  by (simp add: builtin_kill_def emit_def remove_job_def split: sum.splits option.splits)

lemma builtin_jobs_counter: "job_counter (builtin_jobs e s) = job_counter s"
  by (simp add: builtin_jobs_def Let_def emit_def check_background_jobs_counter)

lemma apply_op_counter:
  "\<not> is_launch op \<Longrightarrow> job_counter (apply_op op s) = job_counter s"
  by (cases op)
     (simp_all add: remove_job_def check_background_jobs_counter
        builtin_jobs_counter builtin_fg_counter builtin_kill_counter)

lemma check_background_jobs_filter:
  "jobs (check_background_jobs e s)
     = filter (\<lambda>p. fst p \<notin> set (snd (poll_jobs e (jobs s)))) (jobs s)"
  by (simp add: check_background_jobs_def remove_all_jobs emit_def split: prod.splits)

lemma builtin_fg_jobs: "set (jobs (builtin_fg as s)) \<subseteq> set (jobs s)"
  by (auto simp: builtin_fg_def emit_def remove_job_def map_erase_def
           split: sum.splits option.splits)

lemma builtin_kill_jobs: "set (jobs (builtin_kill e as s)) \<subseteq> set (jobs s)"
  by (auto simp: builtin_kill_def emit_def remove_job_def map_erase_def
           split: sum.splits option.splits)

lemma builtin_jobs_jobs: "jobs (builtin_jobs e s) = jobs (check_background_jobs e s)"
  by (simp add: builtin_jobs_def Let_def emit_def)

lemma apply_op_shrinks:
  "\<not> is_launch op \<Longrightarrow> set (jobs (apply_op op s)) \<subseteq> set (jobs s)"
  by (cases op)
     (simp_all add: remove_job_def map_erase_def check_background_jobs_filter
        builtin_jobs_jobs builtin_fg_jobs builtin_kill_jobs)

lemma apply_ops_snoc: "apply_ops (ops @ [op]) s = apply_op op (apply_ops ops s)"
  by (simp add: apply_ops_def)

lemma assigned_ids_append:
  "assigned_ids (xs @ ys) s = assigned_ids xs s @ assigned_ids ys (apply_ops xs s)"
  by (induction xs arbitrary: s) (simp_all add: apply_ops_def)

text \<open>What a launch does to a registry whose keys are the ids 1 to \<open>m\<close> when the counter
  is \<open>m + 1\<close>, below the end of the range of \<^verbatim>\<open>int\<close>.\<close>

lemma launch_step:
  assumes keys: "keys_upto m t" and c: "job_counter t = 1 + int m" and m: "int m < INT_MAX"
  shows "jobs (add_job h pid cmd t)
           = jobs t @ [(1 + int m,
                        \<lparr>hProcess = h, processId = pid, command = cmd, completed = False\<rparr>)]"
    and "new_keys (jobs t) (jobs (add_job h pid cmd t)) = [1 + int m]"
    and "keys_upto (Suc m) (add_job h pid cmd t)"
    and "job_counter (add_job h pid cmd t) = int32 (1 + int (Suc m))"
proof -
  let ?job = "\<lparr>hProcess = h, processId = pid, command = cmd, completed = False\<rparr>"
  from keys have below: "\<forall>p\<in>set (jobs t). fst p < 1 + int m"
    by (auto simp: keys_upto_def)
  then have fresh: "1 + int m \<notin> fst ` set (jobs t)" by auto
  have j: "jobs (add_job h pid cmd t) = map_assign (1 + int m) ?job (jobs t)"
    by (simp add: add_job_def c)
  show app: "jobs (add_job h pid cmd t) = jobs t @ [(1 + int m, ?job)]"
    using below by (simp add: j map_assign_append)
  show "new_keys (jobs t) (jobs (add_job h pid cmd t)) = [1 + int m]"
    using fresh by (simp add: j new_keys_assign)
  show "keys_upto (Suc m) (add_job h pid cmd t)"
    using keys by (auto simp: keys_upto_def app)
  show "job_counter (add_job h pid cmd t) = int32 (1 + int (Suc m))"
    by (simp add: add_job_def c add.commute)
qed

text \<open>The state of a session after a sequence of registry operations with at most
  \<^verbatim>\<open>INT_MAX\<close> launches.\<close>

lemma session_invariant:
  assumes "int (length (filter is_launch ops)) \<le> INT_MAX"
  shows "keys_upto (length (filter is_launch ops)) (apply_ops ops WindowsShell)
       \<and> job_counter (apply_ops ops WindowsShell) = int32 (1 + int (length (filter is_launch ops)))
       \<and> assigned_ids ops WindowsShell = map int [1..<Suc (length (filter is_launch ops))]"
  using assms
proof (induction ops rule: rev_induct)
  case Nil
  show ?case
    by (simp add: apply_ops_def WindowsShell_def keys_upto_def int32_def)
next
  case (snoc op ops)
  let ?m = "length (filter is_launch ops)"
  let ?t = "apply_ops ops WindowsShell"
  from snoc.prems have m: "int ?m \<le> INT_MAX" by (simp split: if_splits)
  note ih = snoc.IH [OF m]
  have ids: "assigned_ids (ops @ [op]) WindowsShell
      = map int [1..<Suc ?m] @ new_keys (jobs ?t) (jobs (apply_op op ?t))"
    using ih by (simp add: assigned_ids_append)
  show ?case
  proof (cases "is_launch op")
    case True
    then obtain h pid cmd where op: "op = Launch h pid cmd" by (cases op) simp_all
    from snoc.prems True have lt: "int ?m < INT_MAX" by simp
    then have c: "job_counter ?t = 1 + int ?m"
      using ih by (simp add: int32_id INT_MIN_def)
    note st = launch_step [OF ih [THEN conjunct1] c lt, of h pid cmd]
    have "map int [1..<Suc (Suc ?m)] = map int [1..<Suc ?m] @ [1 + int ?m]" by simp
    with True st ids show ?thesis
      by (simp add: op apply_ops_snoc del: upt_Suc)
  next
    case False
    from apply_op_shrinks [OF False, of ?t]
    have sub: "set (jobs (apply_op op ?t)) \<subseteq> set (jobs ?t)" .
    then have nk: "new_keys (jobs ?t) (jobs (apply_op op ?t)) = []" by (rule new_keys_subset)
    from sub ih have "keys_upto ?m (apply_op op ?t)" by (auto simp: keys_upto_def)
    with False ih ids nk show ?thesis
      by (simp add: apply_ops_snoc apply_op_counter del: upt_Suc)
  qed
qed

text \<open>After \<^verbatim>\<open>INT_MAX\<close> launches the counter has wrapped around: the next launch stores
  its job under \<^verbatim>\<open>INT_MIN\<close>.\<close>

lemma ids_wrap:
  assumes n: "int n = INT_MAX" and m: "m = Suc n" and i: "Suc i = n"
  shows "assigned_ids (replicate m (Launch h pid cmd)) WindowsShell ! i = INT_MAX
       \<and> assigned_ids (replicate m (Launch h pid cmd)) WindowsShell ! n = INT_MIN"
proof -
  let ?L = "Launch h pid cmd"
  let ?t = "apply_ops (replicate n ?L) WindowsShell"
  have len: "length (filter is_launch (replicate n ?L)) = n" by simp
  from n have "int (length (filter is_launch (replicate n ?L))) \<le> INT_MAX" by (simp only: len)
  note inv = session_invariant [OF this, unfolded len]
  have c: "job_counter ?t = INT_MIN"
    using inv n int32_wrap by (simp add: add.commute)
  from inv have "\<forall>p\<in>set (jobs ?t). INT_MIN < fst p"
    by (auto simp: keys_upto_def INT_MIN_def)
  then have "INT_MIN \<notin> fst ` set (jobs ?t)" by auto
  then have nk: "new_keys (jobs ?t) (jobs (apply_op ?L ?t)) = [INT_MIN]"
    by (simp add: add_job_def c new_keys_assign)
  have "replicate m ?L = replicate n ?L @ [?L]"
    by (simp add: m replicate_append_same)
  then have ids: "assigned_ids (replicate m ?L) WindowsShell = map int [1..<Suc n] @ [INT_MIN]"
    using inv nk by (simp add: assigned_ids_append del: upt_Suc)
  have l: "length (map int [1..<Suc n]) = n" by simp
  have "(map int [1..<Suc n] @ [INT_MIN]) ! n = INT_MIN"
    using l by (metis nth_append_length)
  moreover have "(map int [1..<Suc n] @ [INT_MIN]) ! i = int n"
    using i by (auto simp: nth_append simp del: upt_Suc)
  ultimately show ?thesis using n by (simp only: ids)
qed

text \<open>
  Claim C5 says that ids are strictly increasing in every session. The counter is a
  32-bit \<^verbatim>\<open>int\<close>: in a session of 2147483648 launches the last but one launch stores
  its job under 2147483647 and the last one under -2147483648.
\<close>

theorem job_ids_never_reused_counterexample:
  "assigned_ids (replicate 2147483648 (Launch (H 0) 0 [])) WindowsShell ! 2147483646
     = 2147483647
   \<and> assigned_ids (replicate 2147483648 (Launch (H 0) 0 [])) WindowsShell ! 2147483647
     = - 2147483648"
proof -
  have n: "int 2147483647 = INT_MAX" by (simp add: INT_MAX_def)
  have m: "(2147483648::nat) = Suc 2147483647" by simp
  have i: "Suc 2147483646 = (2147483647::nat)" by simp
  from ids_wrap [OF n m i, of "H 0" 0 "[]"] show ?thesis
    by (simp only: INT_MAX_def INT_MIN_def)
qed

text \<open>
  Claim C5, amended. In a session that starts from the constructor's state and makes at
  most \<^verbatim>\<open>INT_MAX\<close> launches, whatever registry operations are interleaved (removals,
  polls, \<^verbatim>\<open>jobs\<close>, \<^verbatim>\<open>fg\<close>, \<^verbatim>\<open>kill\<close>): the keys that the operations add to the registry are
  1, 2, 3, ... in this order, one per launch, so they are strictly increasing and never
  repeated; each launch appends its job to the registry under the number of launches up
  to and including it, without touching any entry, also after jobs with smaller ids
  were removed; and the registry only ever holds ids assigned before.
\<close>

theorem job_ids_never_reused:
  assumes "int (length (filter is_launch ops)) \<le> INT_MAX"
  shows "assigned_ids ops WindowsShell = map int [1..<Suc (length (filter is_launch ops))]
       \<and> sorted_wrt (<) (assigned_ids ops WindowsShell)
       \<and> distinct (assigned_ids ops WindowsShell)
       \<and> (\<forall>pre h pid cmd rest. ops = pre @ Launch h pid cmd # rest \<longrightarrow>
            jobs (apply_ops (pre @ [Launch h pid cmd]) WindowsShell)
              = jobs (apply_ops pre WindowsShell)
                @ [(1 + int (length (filter is_launch pre)),
                    \<lparr>hProcess = h, processId = pid, command = cmd, completed = False\<rparr>)])
       \<and> (\<forall>p\<in>set (jobs (apply_ops ops WindowsShell)).
            1 \<le> fst p \<and> fst p \<le> int (length (filter is_launch ops)))
       \<and> job_counter (apply_ops ops WindowsShell)
           = int32 (1 + int (length (filter is_launch ops)))"
proof -
  let ?n = "length (filter is_launch ops)"
  note inv = session_invariant [OF assms]
  have ids: "assigned_ids ops WindowsShell = map int [1..<Suc ?n]"
    by (rule inv [THEN conjunct2, THEN conjunct2])
  have sorted: "sorted_wrt (<) (map int [1..<Suc ?n])"
    by (simp add: sorted_wrt_map del: upt_Suc)
  then have dist: "distinct (map int [1..<Suc ?n])"
    by (simp add: strict_sorted_iff del: upt_Suc)
  have s': "sorted_wrt (<) (assigned_ids ops WindowsShell)"
    using sorted by (simp only: ids)
  have d': "distinct (assigned_ids ops WindowsShell)"
    using dist by (simp only: ids)
  have each: "\<forall>pre h pid cmd rest. ops = pre @ Launch h pid cmd # rest \<longrightarrow>
            jobs (apply_ops (pre @ [Launch h pid cmd]) WindowsShell)
              = jobs (apply_ops pre WindowsShell)
                @ [(1 + int (length (filter is_launch pre)),
                    \<lparr>hProcess = h, processId = pid, command = cmd, completed = False\<rparr>)]"
  proof (intro allI impI)
    fix pre h pid cmd rest
    assume ops: "ops = pre @ Launch h pid cmd # rest"
    let ?m = "length (filter is_launch pre)"
    from ops have "?m < ?n" by simp
    with assms have lt: "int ?m < INT_MAX" by simp
    then have le: "int ?m \<le> INT_MAX" by simp
    note p = session_invariant [OF le]
    from p lt have c: "job_counter (apply_ops pre WindowsShell) = 1 + int ?m"
      by (simp add: int32_id INT_MIN_def)
    from launch_step(1) [OF p [THEN conjunct1] c lt, of h pid cmd]
    show "jobs (apply_ops (pre @ [Launch h pid cmd]) WindowsShell)
              = jobs (apply_ops pre WindowsShell)
                @ [(1 + int ?m,
                    \<lparr>hProcess = h, processId = pid, command = cmd, completed = False\<rparr>)]"
      by (simp add: apply_ops_snoc)
  qed
  have keys: "\<forall>p\<in>set (jobs (apply_ops ops WindowsShell)). 1 \<le> fst p \<and> fst p \<le> int ?n"
    using inv [THEN conjunct1] by (simp add: keys_upto_def)
  have counter: "job_counter (apply_ops ops WindowsShell) = int32 (1 + int ?n)"
    by (rule inv [THEN conjunct2, THEN conjunct1])
  show ?thesis
    by (rule conjI [OF ids conjI [OF s' conjI [OF d' conjI [OF each conjI [OF keys counter]]]]])
qed

text \<open>A launch, a poll that removes the finished job, and a second launch: the ids are
  1 and 2, and the second job is stored under 2 in the emptied registry. The same as a
  session of two input lines.\<close>

theorem job_ids_never_reused_witness:
  "int (length (filter is_launch
          [Launch (H 0) 1000 ''a'', Poll env_all_exited, Launch (H 2) 1002 ''b''])) \<le> INT_MAX
   \<and> jobs (apply_ops [Launch (H 0) 1000 ''a'', Poll env_all_exited] WindowsShell) = []
   \<and> assigned_ids [Launch (H 0) 1000 ''a'', Poll env_all_exited, Launch (H 2) 1002 ''b'']
        WindowsShell = [1, 2]
   \<and> jobs (apply_ops ([Launch (H 0) 1000 ''a'', Poll env_all_exited] @ [Launch (H 2) 1002 ''b''])
             WindowsShell)
       = [(2, \<lparr>hProcess = H 2, processId = 1002, command = ''b'', completed = False\<rparr>)]
   \<and> jobs (run [(env_ok, Some ''a &''), (env_all_exited, Some ''b &'')] WindowsShell)
       = [(2, \<lparr>hProcess = H 2, processId = 1002, command = ''b'', completed = False\<rparr>)]"
proof -
  let ?pre = "[Launch (H 0) 1000 ''a'', Poll env_all_exited]"
  let ?ops = "[Launch (H 0) 1000 ''a'', Poll env_all_exited, Launch (H 2) 1002 ''b'']"
  have n: "length (filter is_launch ?ops) = 2" by simp
  have h: "int (length (filter is_launch ?ops)) \<le> INT_MAX" by (simp add: INT_MAX_def)
  have gone: "jobs (apply_ops ?pre WindowsShell) = []"
    by code_simp
  have session: "jobs (run [(env_ok, Some ''a &''), (env_all_exited, Some ''b &'')] WindowsShell)
       = [(2, \<lparr>hProcess = H 2, processId = 1002, command = ''b'', completed = False\<rparr>)]"
    by code_simp
  have u: "map int [1..<Suc 2] = [1, 2]" by code_simp
  note r = job_ids_never_reused [OF h]
  have a: "assigned_ids ?ops WindowsShell = [1, 2]"
    using r [THEN conjunct1] by (simp only: n u)
  have split: "?ops = ?pre @ Launch (H 2) 1002 ''b'' # []" by simp
  have m: "1 + int (length (filter is_launch ?pre)) = 2" by simp
  have "jobs (apply_ops (?pre @ [Launch (H 2) 1002 ''b'']) WindowsShell)
      = jobs (apply_ops ?pre WindowsShell)
        @ [(1 + int (length (filter is_launch ?pre)),
            \<lparr>hProcess = H 2, processId = 1002, command = ''b'', completed = False\<rparr>)]"
    by (rule r [THEN conjunct2, THEN conjunct2, THEN conjunct2, THEN conjunct1, rule_format,
          OF split])
  then have b: "jobs (apply_ops (?pre @ [Launch (H 2) 1002 ''b'']) WindowsShell)
       = [(2, \<lparr>hProcess = H 2, processId = 1002, command = ''b'', completed = False\<rparr>)]"
    by (simp only: gone m append_Nil)
  show ?thesis
    by (rule conjI [OF h conjI [OF gone conjI [OF a conjI [OF b session]]]])
qed

section \<open>Properties of \<^verbatim>\<open>exit\<close>\<close>

lemma dropWhile_spaces:
  assumes "list_all is_space ws" and "r = [] \<or> \<not> is_space (hd r)"
  shows "dropWhile is_space (ws @ r) = r"
proof -
  from assms(1) have "dropWhile is_space (ws @ r) = dropWhile is_space r"
    by (simp add: dropWhile_append2 list_all_iff)
  also from assms(2) have "\<dots> = r" by (cases r) auto
  finally show ?thesis .
qed

text \<open>What \<open>stoi\<close> returns for white space, an optional sign, a non-empty string of
  digits \<open>ds\<close> and a rest that does not start with a digit.\<close>

lemma stoi_digits:
  assumes ws: "list_all is_space ws"
    and sign: "sign = [] \<or> sign = ''+'' \<or> sign = ''-''"
    and ds: "list_all is_digit ds" "ds \<noteq> []"
    and junk: "junk = [] \<or> \<not> is_digit (hd junk)"
  shows "stoi (ws @ sign @ ds @ junk)
           = (let v = (if sign = ''-'' then - digits_value ds else digits_value ds)
              in if v < INT_MIN \<or> INT_MAX < v then Inl out_of_range else Inr v)"
proof -
  from ds obtain c cs where c: "ds = c # cs" "is_digit c" by (cases ds) auto
  have tw: "takeWhile is_digit (ds @ junk) = ds"
    using ds(1) junk by (rule takeWhile_digits)
  have nsp: "\<not> is_space CHR ''+''" "\<not> is_space CHR ''-''" by (simp_all add: is_space_def)
  have hd_ds: "hd (ds @ junk) = c" "ds @ junk \<noteq> []" using c by simp_all
  note csp = digit_not_space [OF c(2)] and csg = digit_not_sign [OF c(2)]
  from sign consider "sign = []" | "sign = ''+''" | "sign = ''-''" by blast
  then show ?thesis
  proof cases
    case 1
    have "dropWhile is_space (ws @ ds @ junk) = ds @ junk"
      using ws by (rule dropWhile_spaces) (simp add: hd_ds csp)
    then show ?thesis
      using hd_ds csg by (simp add: 1 stoi_def Let_def tw ds(2))
  next
    case 2
    have "dropWhile is_space (ws @ CHR ''+'' # ds @ junk) = CHR ''+'' # ds @ junk"
      using ws by (rule dropWhile_spaces) (simp add: nsp)
    then show ?thesis
      by (simp add: 2 stoi_def Let_def tw ds(2))
  next
    case 3
    have "dropWhile is_space (ws @ CHR ''-'' # ds @ junk) = CHR ''-'' # ds @ junk"
      using ws by (rule dropWhile_spaces) (simp add: nsp)
    then show ?thesis
      by (simp add: 3 stoi_def Let_def tw ds(2))
  qed
qed

lemma stoi_accepts:
  assumes "list_all is_space ws" and "sign = [] \<or> sign = ''+'' \<or> sign = ''-''"
    and "junk = [] \<or> \<not> is_digit (hd junk)"
  shows "stoi (ws @ sign @ replicate k CHR ''0'' @ show_nat n @ junk)
           = (if sign = ''-''
              then (if - int n < INT_MIN then Inl out_of_range else Inr (- int n))
              else (if INT_MAX < int n then Inl out_of_range else Inr (int n)))"
proof -
  define ds where "ds = replicate k CHR ''0'' @ show_nat n"
  have d: "list_all is_digit ds" "ds \<noteq> []" "digits_value ds = int n"
    unfolding ds_def
    by (rule zeros_digits) (simp_all add: show_nat_nonempty digits_value_zeros
          digits_value_show_nat)
  have "stoi (ws @ sign @ ds @ junk)
      = (if sign = ''-''
         then (if - int n < INT_MIN then Inl out_of_range else Inr (- int n))
         else (if INT_MAX < int n then Inl out_of_range else Inr (int n)))"
    by (simp add: stoi_digits [OF assms(1,2) d(1,2) assms(3)] d(3) Let_def INT_MIN_def INT_MAX_def)
  then show ?thesis by (simp add: ds_def)
qed

lemma stoi_after_spaces:
  assumes "dropWhile is_space a = r"
  shows "stoi a =
     (let neg = (r \<noteq> [] \<and> hd r = CHR ''-'');
          body = (if r \<noteq> [] \<and> (hd r = CHR ''-'' \<or> hd r = CHR ''+'') then tl r else r);
          ds = takeWhile is_digit body;
          v = (if neg then - digits_value ds else digits_value ds)
      in if ds = [] then Inl invalid_argument
         else if v < INT_MIN \<or> INT_MAX < v then Inl out_of_range
         else Inr v)"
  by (simp only: stoi_def assms Let_def)

text \<open>What \<open>stoi\<close> refuses: after the white space nothing, or a character that is neither
  a digit nor a sign, or a sign that no digit follows.\<close>

lemma stoi_rejects:
  assumes ws: "list_all is_space ws"
    and rest: "rest = [] \<or> (\<not> is_space (hd rest) \<and> \<not> is_digit (hd rest)
                 \<and> ((hd rest = CHR ''-'' \<or> hd rest = CHR ''+'') \<longrightarrow>
                      tl rest = [] \<or> \<not> is_digit (hd (tl rest))))"
  shows "stoi (ws @ rest) = Inl invalid_argument"
proof -
  from rest have "rest = [] \<or> \<not> is_space (hd rest)" by blast
  with ws have dw: "dropWhile is_space (ws @ rest) = rest" by (rule dropWhile_spaces)
  note st = stoi_after_spaces [OF dw]
  show ?thesis
  proof (cases rest)
    case Nil
    show ?thesis unfolding st by (simp add: Nil)
  next
    case (Cons c r)
    with rest have c: "\<not> is_digit c"
      and s: "c = CHR ''-'' \<or> c = CHR ''+'' \<Longrightarrow> r = [] \<or> \<not> is_digit (hd r)"
      by auto
    have t: "takeWhile is_digit r = []" if "c = CHR ''-'' \<or> c = CHR ''+''"
      using s [OF that] by (cases r) auto
    show ?thesis
    proof (cases "c = CHR ''-'' \<or> c = CHR ''+''")
      case True
      with t show ?thesis unfolding st by (simp add: Cons)
    next
      case False
      with c show ?thesis unfolding st by (simp add: Cons)
    qed
  qed
qed

text \<open>Every string has one of the two forms.\<close>

lemma stoi_forms:
  "(\<exists>ws sign k n junk. a = ws @ sign @ replicate k CHR ''0'' @ show_nat n @ junk
       \<and> list_all is_space ws \<and> (sign = [] \<or> sign = ''+'' \<or> sign = ''-'')
       \<and> (junk = [] \<or> \<not> is_digit (hd junk)))
   \<or> (\<exists>ws rest. a = ws @ rest \<and> list_all is_space ws
       \<and> (rest = [] \<or> (\<not> is_space (hd rest) \<and> \<not> is_digit (hd rest)
            \<and> ((hd rest = CHR ''-'' \<or> hd rest = CHR ''+'') \<longrightarrow>
                 tl rest = [] \<or> \<not> is_digit (hd (tl rest))))))"
proof -
  define ws where "ws = takeWhile is_space a"
  define r where "r = dropWhile is_space a"
  have a: "a = ws @ r" and ws: "list_all is_space ws"
    by (simp_all add: ws_def r_def list_all_iff) (meson set_takeWhileD)
  have r: "r = [] \<or> \<not> is_space (hd r)"
    unfolding r_def by (metis hd_dropWhile)
  have digits: "\<exists>k n junk. x = replicate k CHR ''0'' @ show_nat n @ junk
        \<and> (junk = [] \<or> \<not> is_digit (hd junk))"
    if x: "x \<noteq> []" "is_digit (hd x)" for x
  proof -
    let ?ds = "takeWhile is_digit x" and ?junk = "dropWhile is_digit x"
    from x have ne: "?ds \<noteq> []" by (cases x) auto
    have all: "list_all is_digit ?ds" by (simp add: list_all_iff) (meson set_takeWhileD)
    from digit_string_form [OF all ne] obtain k n where "?ds = replicate k CHR ''0'' @ show_nat n"
      by blast
    then have "x = replicate k CHR ''0'' @ show_nat n @ ?junk"
      by (metis append.assoc takeWhile_dropWhile_id)
    moreover have "?junk = [] \<or> \<not> is_digit (hd ?junk)" by (metis hd_dropWhile)
    ultimately show ?thesis by blast
  qed
  show ?thesis
  proof (cases "r \<noteq> [] \<and> is_digit (hd r)")
    case True
    from digits [of r] True obtain k n junk where
      "r = replicate k CHR ''0'' @ show_nat n @ junk" "junk = [] \<or> \<not> is_digit (hd junk)"
      by blast
    with a ws have "a = ws @ [] @ replicate k CHR ''0'' @ show_nat n @ junk
       \<and> list_all is_space ws \<and> ([] = [] \<or> [] = ''+'' \<or> [] = ''-'')
       \<and> (junk = [] \<or> \<not> is_digit (hd junk))" by simp
    then show ?thesis by blast
  next
    case nd: False
    show ?thesis
    proof (cases "r \<noteq> [] \<and> (hd r = CHR ''-'' \<or> hd r = CHR ''+'') \<and> tl r \<noteq> []
                   \<and> is_digit (hd (tl r))")
      case True
      then obtain c where c: "r = c # tl r" "c = CHR ''-'' \<or> c = CHR ''+''"
        by (cases r) auto
      from digits [of "tl r"] True obtain k n junk where
        t: "tl r = replicate k CHR ''0'' @ show_nat n @ junk" "junk = [] \<or> \<not> is_digit (hd junk)"
        by blast
      from c t(1) have "r = [c] @ replicate k CHR ''0'' @ show_nat n @ junk" by simp
      with a ws c(2) t(2) have "a = ws @ [c] @ replicate k CHR ''0'' @ show_nat n @ junk
         \<and> list_all is_space ws \<and> ([c] = [] \<or> [c] = ''+'' \<or> [c] = ''-'')
         \<and> (junk = [] \<or> \<not> is_digit (hd junk))" by auto
      then show ?thesis by blast
    next
      case False
      with nd r have "r = [] \<or> (\<not> is_space (hd r) \<and> \<not> is_digit (hd r)
            \<and> ((hd r = CHR ''-'' \<or> hd r = CHR ''+'') \<longrightarrow>
                 tl r = [] \<or> \<not> is_digit (hd (tl r))))" by blast
      with a ws show ?thesis by blast
    qed
  qed
qed

lemma builtin_exit_cases:
  "builtin_exit as s =
     (if length as \<le> 1 then do_exit 0 s
      else case stoi (as ! 1) of
             Inl err \<Rightarrow> emit [Stderr (''exit: invalid argument'' @ nl)] s
           | Inr c \<Rightarrow> do_exit c s)"
  by (simp add: builtin_exit_def)

lemma do_exit_state:
  "do_exit c s
     = s\<lparr>running := False, exited := Some c,
         trace := trace s
                  @ map (\<lambda>p. CloseHandle (hProcess (snd p)))
                      (filter (\<lambda>p. hProcess (snd p) \<noteq> NULL) (jobs s))
                  @ [Exit c]\<rparr>"
  by (simp add: do_exit_def emit_def close_job_handles_def)

text \<open>
  Claim C8, amended. Without an argument \<^verbatim>\<open>exit\<close> ends the shell with code 0: the
  handle of every job is closed unless it is \<^verbatim>\<open>NULL\<close>, and the process exits. With an
  argument it ends the shell in the same way with the integer that \<^verbatim>\<open>std::stoi\<close> reads,
  and when \<^verbatim>\<open>std::stoi\<close> throws the message on the error stream is the only effect, so
  the shell keeps running. What \<^verbatim>\<open>std::stoi\<close> reads: after any white space, an optional
  sign and a non-empty run of digits (any number of zeros, then the rendering of a
  number \<open>n\<close>) give \<open>n\<close> or \<open>-n\<close>, whatever follows the digits, unless the value is outside
  the range of \<^verbatim>\<open>int\<close>, which throws; every other string throws. The two forms cover
  every string.
\<close>

theorem exit_reads_leading_integer:
  "(length as \<le> 1 \<longrightarrow>
      builtin_exit as s
        = s\<lparr>running := False, exited := Some 0,
            trace := trace s
                     @ map (\<lambda>p. CloseHandle (hProcess (snd p)))
                         (filter (\<lambda>p. hProcess (snd p) \<noteq> NULL) (jobs s))
                     @ [Exit 0]\<rparr>)
   \<and> (\<forall>c. 1 < length as \<and> stoi (as ! 1) = Inr c \<longrightarrow>
         builtin_exit as s
           = s\<lparr>running := False, exited := Some c,
               trace := trace s
                        @ map (\<lambda>p. CloseHandle (hProcess (snd p)))
                            (filter (\<lambda>p. hProcess (snd p) \<noteq> NULL) (jobs s))
                        @ [Exit c]\<rparr>)
   \<and> (\<forall>err. 1 < length as \<and> stoi (as ! 1) = Inl err \<longrightarrow>
         builtin_exit as s = emit [Stderr (''exit: invalid argument'' @ nl)] s)
   \<and> (\<forall>ws sign k n junk.
         list_all is_space ws \<and> (sign = [] \<or> sign = ''+'' \<or> sign = ''-'')
         \<and> (junk = [] \<or> \<not> is_digit (hd junk)) \<longrightarrow>
         stoi (ws @ sign @ replicate k CHR ''0'' @ show_nat n @ junk)
           = (if sign = ''-''
              then (if - int n < INT_MIN then Inl out_of_range else Inr (- int n))
              else (if INT_MAX < int n then Inl out_of_range else Inr (int n))))
   \<and> (\<forall>ws rest.
         list_all is_space ws
         \<and> (rest = [] \<or> (\<not> is_space (hd rest) \<and> \<not> is_digit (hd rest)
              \<and> ((hd rest = CHR ''-'' \<or> hd rest = CHR ''+'') \<longrightarrow>
                   tl rest = [] \<or> \<not> is_digit (hd (tl rest))))) \<longrightarrow>
         stoi (ws @ rest) = Inl invalid_argument)
   \<and> (\<forall>a. (\<exists>ws sign k n junk. a = ws @ sign @ replicate k CHR ''0'' @ show_nat n @ junk
               \<and> list_all is_space ws \<and> (sign = [] \<or> sign = ''+'' \<or> sign = ''-'')
               \<and> (junk = [] \<or> \<not> is_digit (hd junk)))
          \<or> (\<exists>ws rest. a = ws @ rest \<and> list_all is_space ws
               \<and> (rest = [] \<or> (\<not> is_space (hd rest) \<and> \<not> is_digit (hd rest)
                    \<and> ((hd rest = CHR ''-'' \<or> hd rest = CHR ''+'') \<longrightarrow>
                         tl rest = [] \<or> \<not> is_digit (hd (tl rest)))))))"
proof (intro conjI allI impI)
  assume "length as \<le> 1"
  then show "builtin_exit as s
        = s\<lparr>running := False, exited := Some 0,
            trace := trace s
                     @ map (\<lambda>p. CloseHandle (hProcess (snd p)))
                         (filter (\<lambda>p. hProcess (snd p) \<noteq> NULL) (jobs s))
                     @ [Exit 0]\<rparr>"
    by (simp add: builtin_exit_cases do_exit_state)
next
  fix c
  assume "1 < length as \<and> stoi (as ! 1) = Inr c"
  then show "builtin_exit as s
           = s\<lparr>running := False, exited := Some c,
               trace := trace s
                        @ map (\<lambda>p. CloseHandle (hProcess (snd p)))
                            (filter (\<lambda>p. hProcess (snd p) \<noteq> NULL) (jobs s))
                        @ [Exit c]\<rparr>"
    by (simp add: builtin_exit_cases do_exit_state)
next
  fix err
  assume "1 < length as \<and> stoi (as ! 1) = Inl err"
  then show "builtin_exit as s = emit [Stderr (''exit: invalid argument'' @ nl)] s"
    by (simp add: builtin_exit_cases)
next
  fix ws sign k n junk
  assume "list_all is_space ws \<and> (sign = [] \<or> sign = ''+'' \<or> sign = ''-'')
         \<and> (junk = [] \<or> \<not> is_digit (hd junk))"
  then show "stoi (ws @ sign @ replicate k CHR ''0'' @ show_nat n @ junk)
           = (if sign = ''-''
              then (if - int n < INT_MIN then Inl out_of_range else Inr (- int n))
              else (if INT_MAX < int n then Inl out_of_range else Inr (int n)))"
    using stoi_accepts [of ws sign junk k n] by blast
next
  fix ws rest
  assume "list_all is_space ws
         \<and> (rest = [] \<or> (\<not> is_space (hd rest) \<and> \<not> is_digit (hd rest)
              \<and> ((hd rest = CHR ''-'' \<or> hd rest = CHR ''+'') \<longrightarrow>
                   tl rest = [] \<or> \<not> is_digit (hd (tl rest)))))"
  then show "stoi (ws @ rest) = Inl invalid_argument"
    using stoi_rejects [of ws rest] by blast
next
  fix a
  show "(\<exists>ws sign k n junk. a = ws @ sign @ replicate k CHR ''0'' @ show_nat n @ junk
               \<and> list_all is_space ws \<and> (sign = [] \<or> sign = ''+'' \<or> sign = ''-'')
               \<and> (junk = [] \<or> \<not> is_digit (hd junk)))
          \<or> (\<exists>ws rest. a = ws @ rest \<and> list_all is_space ws
               \<and> (rest = [] \<or> (\<not> is_space (hd rest) \<and> \<not> is_digit (hd rest)
                    \<and> ((hd rest = CHR ''-'' \<or> hd rest = CHR ''+'') \<longrightarrow>
                         tl rest = [] \<or> \<not> is_digit (hd (tl rest))))))"
    by (rule stoi_forms)
qed

text \<open>
  Claim C8 says that every non-integer argument is refused. \<^verbatim>\<open>exit 12abc\<close> is not
  refused: \<^verbatim>\<open>std::stoi\<close> reads 12 and ignores the rest, no error is printed and the
  shell exits with code 12.
\<close>

theorem exit_non_integer_counterexample:
  "\<not> is_integer_literal ''12abc''
   \<and> exited (builtin_exit [''exit'', ''12abc''] WindowsShell) = Some 12
   \<and> \<not> running (builtin_exit [''exit'', ''12abc''] WindowsShell)
   \<and> error_messages (trace (builtin_exit [''exit'', ''12abc''] WindowsShell)) = []"
  by code_simp

text \<open>\<^verbatim>\<open>exit\<close>, \<^verbatim>\<open>exit +007x\<close>, \<^verbatim>\<open>exit 12abc\<close>, \<^verbatim>\<open>exit -\<close> and \<^verbatim>\<open>exit abc\<close>.\<close>

theorem exit_reads_leading_integer_witness:
  "length [''exit''] \<le> 1
   \<and> exited (builtin_exit [''exit''] WindowsShell) = Some 0
   \<and> stoi ''+007x'' = Inr 7
   \<and> exited (builtin_exit [''exit'', ''+007x''] WindowsShell) = Some 7
   \<and> stoi ''12abc'' = Inr 12
   \<and> exited (builtin_exit [''exit'', ''12abc''] WindowsShell) = Some 12
   \<and> stoi ''-'' = Inl invalid_argument
   \<and> builtin_exit [''exit'', ''-''] WindowsShell
       = emit [Stderr (''exit: invalid argument'' @ nl)] WindowsShell
   \<and> stoi ''abc'' = Inl invalid_argument
   \<and> builtin_exit [''exit'', ''abc''] WindowsShell
       = emit [Stderr (''exit: invalid argument'' @ nl)] WindowsShell
   \<and> running (builtin_exit [''exit'', ''abc''] WindowsShell)"
proof -
  have a1: "length [''exit''] \<le> 1" by simp
  note t0 = exit_reads_leading_integer [of "[''exit'']" WindowsShell, THEN conjunct1,
      THEN mp, OF a1]
  have a: "exited (builtin_exit [''exit''] WindowsShell) = Some 0"
    by (subst t0) simp
  note acc = exit_reads_leading_integer [of "[''exit'', ''+007x'']" WindowsShell,
      THEN conjunct2, THEN conjunct2, THEN conjunct2, THEN conjunct1, rule_format]
  have p1: "list_all is_space [] \<and> (''+'' = [] \<or> ''+'' = ''+'' \<or> ''+'' = ''-'')
      \<and> (''x'' = [] \<or> \<not> is_digit (hd ''x''))"
    by (simp add: is_digit_def)
  have "stoi ([] @ ''+'' @ replicate (Suc (Suc 0)) CHR ''0'' @ show_nat 7 @ ''x'') = Inr 7"
    using acc [OF p1, where k = "Suc (Suc 0)" and n = 7] by (simp add: INT_MAX_def)
  then have b1: "stoi ''+007x'' = Inr 7"
    by (simp add: show_nat_small digit_char_def)
  have p2: "list_all is_space [] \<and> ([] = [] \<or> [] = ''+'' \<or> [] = ''-'')
      \<and> (''abc'' = [] \<or> \<not> is_digit (hd ''abc''))"
    by (simp add: is_digit_def)
  have "stoi ([] @ [] @ replicate 0 CHR ''0'' @ show_nat 12 @ ''abc'') = Inr 12"
    using acc [OF p2, where k = 0 and n = 12] by (simp add: INT_MAX_def)
  then have c1: "stoi ''12abc'' = Inr 12"
    by (simp add: show_nat.simps digit_char_def)
  note ex = exit_reads_leading_integer [THEN conjunct2, THEN conjunct1, rule_format]
  have b2: "exited (builtin_exit [''exit'', ''+007x''] WindowsShell) = Some 7"
    by (subst ex [of "[''exit'', ''+007x'']" 7 WindowsShell]) (simp_all add: b1)
  have c2: "exited (builtin_exit [''exit'', ''12abc''] WindowsShell) = Some 12"
    by (subst ex [of "[''exit'', ''12abc'']" 12 WindowsShell]) (simp_all add: c1)
  note rej = exit_reads_leading_integer [of "[''exit'', ''+007x'']" WindowsShell,
      THEN conjunct2, THEN conjunct2, THEN conjunct2, THEN conjunct2, THEN conjunct1, rule_format]
  have p3: "list_all is_space [] \<and> (''-'' = [] \<or> (\<not> is_space (hd ''-'') \<and> \<not> is_digit (hd ''-'')
        \<and> ((hd ''-'' = CHR ''-'' \<or> hd ''-'' = CHR ''+'') \<longrightarrow>
             tl ''-'' = [] \<or> \<not> is_digit (hd (tl ''-'')))))"
    by (simp add: is_digit_def is_space_def)
  have d1: "stoi ''-'' = Inl invalid_argument"
    using rej [OF p3] by simp
  have p4: "list_all is_space [] \<and> (''abc'' = [] \<or> (\<not> is_space (hd ''abc'') \<and> \<not> is_digit (hd ''abc'')
        \<and> ((hd ''abc'' = CHR ''-'' \<or> hd ''abc'' = CHR ''+'') \<longrightarrow>
             tl ''abc'' = [] \<or> \<not> is_digit (hd (tl ''abc'')))))"
    by (simp add: is_digit_def is_space_def)
  have e1: "stoi ''abc'' = Inl invalid_argument"
    using rej [OF p4] by simp
  note er = exit_reads_leading_integer [THEN conjunct2, THEN conjunct2, THEN conjunct1,
      rule_format]
  have d2: "builtin_exit [''exit'', ''-''] WindowsShell
       = emit [Stderr (''exit: invalid argument'' @ nl)] WindowsShell"
    by (rule er [of "[''exit'', ''-'']" invalid_argument]) (simp add: d1)
  have e2: "builtin_exit [''exit'', ''abc''] WindowsShell
       = emit [Stderr (''exit: invalid argument'' @ nl)] WindowsShell"
    by (rule er [of "[''exit'', ''abc'']" invalid_argument]) (simp add: e1)
  have e3: "running (builtin_exit [''exit'', ''abc''] WindowsShell)"
    by (subst e2) (simp add: emit_def WindowsShell_def)
  show ?thesis
    by (intro conjI) (fact a1 a b1 b2 c1 c2 d1 d2 e1 e2 e3)+
qed

section \<open>Properties of pipelines\<close>

lemma projections_append:
  "created_pipes (a @ b) = created_pipes a @ created_pipes b"
  "launch_attempts (a @ b) = launch_attempts a @ launch_attempts b"
  "closed_handles (a @ b) = closed_handles a @ closed_handles b"
  "opened_for_reading (a @ b) = opened_for_reading a @ opened_for_reading b"
  "error_messages (a @ b) = error_messages a @ error_messages b"
  "launched_processes (a @ b) = launched_processes a @ launched_processes b"
  "waited_on (a @ b) = waited_on a @ waited_on b"
  by (simp_all add: created_pipes_def launch_attempts_def closed_handles_def
        opened_for_reading_def error_messages_def launched_processes_def waited_on_def)

lemma projections_Nil:
  "created_pipes [] = []" "launch_attempts [] = []" "closed_handles [] = []"
  "opened_for_reading [] = []" "error_messages [] = []" "launched_processes [] = []"
  "waited_on [] = []"
  by (simp_all add: created_pipes_def launch_attempts_def closed_handles_def
        opened_for_reading_def error_messages_def launched_processes_def waited_on_def)

lemma projections_Cons:
  "created_pipes (x # a) = pipe_of x @ created_pipes a"
  "launch_attempts (x # a) = launch_of x @ launch_attempts a"
  "closed_handles (x # a) = closed_of x @ closed_handles a"
  "opened_for_reading (x # a) = read_of x @ opened_for_reading a"
  "error_messages (x # a) = stderr_of x @ error_messages a"
  "launched_processes (x # a) = launched_of x @ launched_processes a"
  "waited_on (x # a) = wait_of x @ waited_on a"
  by (simp_all add: created_pipes_def launch_attempts_def closed_handles_def
        opened_for_reading_def error_messages_def launched_processes_def waited_on_def)

lemmas projections = projections_append projections_Nil projections_Cons

lemma projections_closes:
  "created_pipes (map CloseHandle hs) = []"
  "launch_attempts (map CloseHandle hs) = []"
  "closed_handles (map CloseHandle hs) = hs"
  "opened_for_reading (map CloseHandle hs) = []"
  "error_messages (map CloseHandle hs) = []"
  "launched_processes (map CloseHandle hs) = []"
  "waited_on (map CloseHandle hs) = []"
  by (induction hs) (simp_all add: projections)

lemma projections_pipes:
  "created_pipes (map (\<lambda>p. CreatePipe (Some p)) ps) = ps"
  "launch_attempts (map (\<lambda>p. CreatePipe (Some p)) ps) = []"
  "closed_handles (map (\<lambda>p. CreatePipe (Some p)) ps) = []"
  "opened_for_reading (map (\<lambda>p. CreatePipe (Some p)) ps) = []"
  "error_messages (map (\<lambda>p. CreatePipe (Some p)) ps) = []"
  "launched_processes (map (\<lambda>p. CreatePipe (Some p)) ps) = []"
  "waited_on (map (\<lambda>p. CreatePipe (Some p)) ps) = []"
  by (induction ps) (simp_all add: projections)

lemma new_events_append: "trace s' = trace s @ evs \<Longrightarrow> new_events s s' = evs"
  by (simp add: new_events_def)

lemma fresh_pipes_0: "fresh_pipes nh 0 = []"
  by (simp add: fresh_pipes_def)

lemma fresh_pipes_Suc:
  "fresh_pipes nh (Suc n) = (H nh, H (nh + 1)) # fresh_pipes (nh + 2) n"
proof -
  have "[0..<Suc n] = 0 # map Suc [0..<n]"
    by (simp add: upt_conv_Cons map_Suc_upt del: upt_Suc)
  then show ?thesis
    by (simp add: fresh_pipes_def comp_def del: upt_Suc)
qed

lemma length_fresh_pipes: "length (fresh_pipes nh n) = n"
  by (simp add: fresh_pipes_def)

lemma nth_fresh_pipes: "j < n \<Longrightarrow> fresh_pipes nh n ! j = (H (nh + 2 * j), H (nh + 2 * j + 1))"
  by (simp add: fresh_pipes_def)

text \<open>All pipes are created when no \<^verbatim>\<open>CreatePipe\<close> fails.\<close>

lemma create_pipes_ok:
  assumes "\<forall>k. i \<le> k \<and> k < i + n \<longrightarrow> pipe_ok e k"
  shows "create_pipes e i n rs ws s
           = (Some (rs @ map fst (fresh_pipes (next_handle s) n),
                    ws @ map snd (fresh_pipes (next_handle s) n)),
              s\<lparr>next_handle := next_handle s + 2 * n,
                trace := trace s @ map (\<lambda>p. CreatePipe (Some p)) (fresh_pipes (next_handle s) n)\<rparr>)"
  using assms
proof (induction n arbitrary: i rs ws s)
  case 0
  then show ?case by (simp add: fresh_pipes_0)
next
  case (Suc n)
  from Suc.prems have ok: "pipe_ok e i" by simp
  from Suc.prems have rest: "\<forall>k. Suc i \<le> k \<and> k < Suc i + n \<longrightarrow> pipe_ok e k" by simp
  let ?s1 = "(emit [CreatePipe (Some (H (next_handle s), H (next_handle s + 1)))] s)
               \<lparr>next_handle := next_handle s + 2\<rparr>"
  have cp: "create_pipe e i s = (Some (H (next_handle s), H (next_handle s + 1)), ?s1)"
    using ok by (simp add: create_pipe_def)
  have nh: "next_handle ?s1 = next_handle s + 2" by simp
  show ?case
    by (simp add: cp Suc.IH [OF rest] fresh_pipes_Suc emit_def)
qed


text \<open>When the \<open>m\<close>-th further \<^verbatim>\<open>CreatePipe\<close> is the first to fail, the \<open>m\<close> pipes
  created before it stay open: the function returns after the error message.\<close>

lemma create_pipes_fail:
  assumes "\<forall>k. i \<le> k \<and> k < i + m \<longrightarrow> pipe_ok e k" and "\<not> pipe_ok e (i + m)" and "m < n"
  shows "create_pipes e i n rs ws s
           = (None,
              s\<lparr>next_handle := next_handle s + 2 * m,
                trace := trace s @ map (\<lambda>p. CreatePipe (Some p)) (fresh_pipes (next_handle s) m)
                           @ [CreatePipe None, Stderr (''Error: Cannot create pipe'' @ nl)]\<rparr>)"
  using assms
proof (induction m arbitrary: i n rs ws s)
  case 0
  then obtain n' where n: "n = Suc n'" by (cases n) simp_all
  from 0 have "create_pipe e i s = (None, emit [CreatePipe None] s)"
    by (simp add: create_pipe_def)
  then show ?case by (simp add: n fresh_pipes_0 emit_def)
next
  case (Suc m)
  then obtain n' where n: "n = Suc n'" and m: "m < n'" by (cases n) simp_all
  from Suc.prems have ok: "pipe_ok e i" by simp
  from Suc.prems have rest: "\<forall>k. Suc i \<le> k \<and> k < Suc i + m \<longrightarrow> pipe_ok e k" by simp
  from Suc.prems have bad: "\<not> pipe_ok e (Suc i + m)" by simp
  let ?s1 = "(emit [CreatePipe (Some (H (next_handle s), H (next_handle s + 1)))] s)
               \<lparr>next_handle := next_handle s + 2\<rparr>"
  have cp: "create_pipe e i s = (Some (H (next_handle s), H (next_handle s + 1)), ?s1)"
    using ok by (simp add: create_pipe_def)
  show ?case
    by (simp add: n cp Suc.IH [OF rest bad m] fresh_pipes_Suc emit_def)
qed

text \<open>What the system calls of one stage do.\<close>

lemma create_file_step:
  assumes "create_file e path mode s = (h, s')"
  shows "trace s' = trace s @ [CreateFileA path mode h]"
    and "jobs s' = jobs s" and "job_counter s' = job_counter s"
    and "next_handle s \<le> next_handle s'"
  using assms by (auto simp: create_file_def emit_def split: if_splits)

lemma create_process_step:
  assumes "create_process e i cmdline si s = (r, s')"
  shows "trace s' = trace s @ [CreateProcessA cmdline si r]"
    and "jobs s' = jobs s" and "job_counter s' = job_counter s"
    and "next_handle s \<le> next_handle s'"
    and "r = None \<or> r = Some (H (next_handle s), H (next_handle s + 1), pid_of e (H (next_handle s)))"
  using assms by (auto simp: create_process_def emit_def Let_def split: if_splits)

lemma setup_stdin_step:
  assumes "setup_stdin e cmds rs i s = (h, s')"
  shows "trace s' = trace s @ (if i = 0 \<and> input_file (cmds ! 0) \<noteq> []
                               then [CreateFileA (input_file (cmds ! 0)) READ_OPEN_EXISTING h]
                               else [])"
    and "jobs s' = jobs s" and "job_counter s' = job_counter s"
    and "next_handle s \<le> next_handle s'"
    and "0 < i \<longrightarrow> h = rs ! (i - 1)"
  using assms
  by (auto simp: setup_stdin_def split: if_splits dest: create_file_step)

lemma setup_stdout_step:
  assumes "setup_stdout e cmds ws i s = (h, s')"
  shows "\<exists>evs. trace s' = trace s @ evs \<and> launch_attempts evs = [] \<and> created_pipes evs = []
           \<and> closed_handles evs = [] \<and> opened_for_reading evs = [] \<and> error_messages evs = []
           \<and> launched_processes evs = [] \<and> waited_on evs = []"
    and "jobs s' = jobs s" and "job_counter s' = job_counter s"
    and "next_handle s \<le> next_handle s'"
    and "i < length cmds - 1 \<longrightarrow> h = ws ! i"
proof -
  have "(\<exists>evs. trace s' = trace s @ evs \<and> launch_attempts evs = [] \<and> created_pipes evs = []
           \<and> closed_handles evs = [] \<and> opened_for_reading evs = [] \<and> error_messages evs = []
           \<and> launched_processes evs = [] \<and> waited_on evs = [])
      \<and> jobs s' = jobs s \<and> job_counter s' = job_counter s \<and> next_handle s \<le> next_handle s'
      \<and> (i < length cmds - 1 \<longrightarrow> h = ws ! i)"
  proof (cases "i = length cmds - 1 \<and> output_file (cmds ! i) \<noteq> []")
    case False
    with assms have "s' = s" "i < length cmds - 1 \<longrightarrow> h = ws ! i"
      by (auto simp: setup_stdout_def split: if_splits)
    then show ?thesis by (simp add: projections)
  next
    case True
    let ?mode = "if append_output (cmds ! i) then WRITE_OPEN_ALWAYS else WRITE_CREATE_ALWAYS"
    obtain h0 t where cf: "create_file e (output_file (cmds ! i)) ?mode s = (h0, t)"
      by (cases "create_file e (output_file (cmds ! i)) ?mode s")
    note st = create_file_step [OF cf]
    have wr: "read_of (CreateFileA (output_file (cmds ! i)) ?mode h0) = []" by simp
    from assms True cf
    have "h = h0 \<and> (s' = t \<or> s' = emit [SetFilePointerEnd h0] t)"
      by (auto simp: setup_stdout_def split: if_splits)
    then consider "trace s' = trace s @ [CreateFileA (output_file (cmds ! i)) ?mode h0]"
        "jobs s' = jobs s" "job_counter s' = job_counter s" "next_handle s \<le> next_handle s'"
      | "trace s' = trace s @ [CreateFileA (output_file (cmds ! i)) ?mode h0, SetFilePointerEnd h0]"
        "jobs s' = jobs s" "job_counter s' = job_counter s" "next_handle s \<le> next_handle s'"
      using st by (auto simp: emit_def)
    then show ?thesis
    proof cases
      case 1
      have "launch_attempts [CreateFileA (output_file (cmds ! i)) ?mode h0] = []
          \<and> created_pipes [CreateFileA (output_file (cmds ! i)) ?mode h0] = []
          \<and> closed_handles [CreateFileA (output_file (cmds ! i)) ?mode h0] = []
          \<and> opened_for_reading [CreateFileA (output_file (cmds ! i)) ?mode h0] = []
          \<and> error_messages [CreateFileA (output_file (cmds ! i)) ?mode h0] = []
          \<and> launched_processes [CreateFileA (output_file (cmds ! i)) ?mode h0] = []
          \<and> waited_on [CreateFileA (output_file (cmds ! i)) ?mode h0] = []"
        by (simp add: projections)
      with 1 True show ?thesis by blast
    next
      case 2
      have "launch_attempts [CreateFileA (output_file (cmds ! i)) ?mode h0, SetFilePointerEnd h0] = []
          \<and> created_pipes [CreateFileA (output_file (cmds ! i)) ?mode h0, SetFilePointerEnd h0] = []
          \<and> closed_handles [CreateFileA (output_file (cmds ! i)) ?mode h0, SetFilePointerEnd h0] = []
          \<and> opened_for_reading [CreateFileA (output_file (cmds ! i)) ?mode h0, SetFilePointerEnd h0] = []
          \<and> error_messages [CreateFileA (output_file (cmds ! i)) ?mode h0, SetFilePointerEnd h0] = []
          \<and> launched_processes [CreateFileA (output_file (cmds ! i)) ?mode h0, SetFilePointerEnd h0] = []
          \<and> waited_on [CreateFileA (output_file (cmds ! i)) ?mode h0, SetFilePointerEnd h0] = []"
        by (simp add: projections)
      with 2 True show ?thesis by blast
    qed
  qed
  then show "\<exists>evs. trace s' = trace s @ evs \<and> launch_attempts evs = [] \<and> created_pipes evs = []
           \<and> closed_handles evs = [] \<and> opened_for_reading evs = [] \<and> error_messages evs = []
           \<and> launched_processes evs = [] \<and> waited_on evs = []"
    and "jobs s' = jobs s" and "job_counter s' = job_counter s"
    and "next_handle s \<le> next_handle s'"
    and "i < length cmds - 1 \<longrightarrow> h = ws ! i"
    by blast+
qed

lemma allocated_from_mono: "allocated_from nh' h \<Longrightarrow> nh \<le> nh' \<Longrightarrow> allocated_from nh h"
  by (cases h) (simp_all add: allocated_from_def)

lemma allocated_from_H: "allocated_from nh (H k) = (nh \<le> k)"
  by (simp add: allocated_from_def)

lemma launch_stage_step:
  assumes "launch_stage e cmds rs ws (hs, s) i = (hs', s')"
  shows "\<exists>evs si. trace s' = trace s @ evs
      \<and> launch_attempts evs = [si]
      \<and> (0 < i \<longrightarrow> hStdInput si = rs ! (i - 1))
      \<and> (i < length cmds - 1 \<longrightarrow> hStdOutput si = ws ! i)
      \<and> created_pipes evs = []
      \<and> opened_for_reading evs
          = (if i = 0 \<and> input_file (cmds ! 0) \<noteq> [] then [input_file (cmds ! 0)] else [])
      \<and> hs' = hs @ launched_processes evs
      \<and> waited_on evs = []
      \<and> (\<forall>h\<in>set (closed_handles evs). allocated_from (next_handle s) h)
      \<and> (\<forall>h\<in>set (launched_processes evs). allocated_from (next_handle s) h)
      \<and> (\<forall>msg\<in>set (error_messages evs). \<exists>x. msg = ''Error: Cannot execute '' @ x @ nl)
      \<and> jobs s' = jobs s \<and> job_counter s' = job_counter s \<and> next_handle s \<le> next_handle s'"
proof -
  obtain hin s1 where in_eq: "setup_stdin e cmds rs i s = (hin, s1)"
    by (cases "setup_stdin e cmds rs i s")
  obtain hout s2 where out_eq: "setup_stdout e cmds ws i s1 = (hout, s2)"
    by (cases "setup_stdout e cmds ws i s1")
  let ?si = "\<lparr>hStdInput = hin, hStdOutput = hout, hStdError = STD_ERROR, use_std_handles = True\<rparr>"
  let ?cl = "build_command_line (args (cmds ! i))"
  obtain r s3 where cp_eq: "create_process e i ?cl ?si s2 = (r, s3)"
    by (cases "create_process e i ?cl ?si s2")
  note a = setup_stdin_step [OF in_eq]
  note b = setup_stdout_step [OF out_eq]
  note c = create_process_step [OF cp_eq]
  let ?A = "if i = 0 \<and> input_file (cmds ! 0) \<noteq> []
            then [CreateFileA (input_file (cmds ! 0)) READ_OPEN_EXISTING hin] else []"
  from b(1) obtain B where B: "trace s2 = trace s1 @ B" "launch_attempts B = []"
    "created_pipes B = []" "closed_handles B = []" "opened_for_reading B = []"
    "error_messages B = []" "launched_processes B = []" "waited_on B = []" by blast
  have nh2: "next_handle s \<le> next_handle s2" using a(4) b(4) by simp
  have tr3: "trace s3 = trace s @ ?A @ B @ [CreateProcessA ?cl ?si r]"
    using a(1) B(1) c(1) by simp
  have keep: "jobs s3 = jobs s" "job_counter s3 = job_counter s" "next_handle s \<le> next_handle s3"
    using a b c by simp_all
  have projA: "launch_attempts ?A = []" "created_pipes ?A = []" "closed_handles ?A = []"
    "error_messages ?A = []" "launched_processes ?A = []" "waited_on ?A = []"
    "opened_for_reading ?A
       = (if i = 0 \<and> input_file (cmds ! 0) \<noteq> [] then [input_file (cmds ! 0)] else [])"
    by (simp_all add: projections)
  show ?thesis
  proof (cases r)
    case None
    let ?msg = "''Error: Cannot execute '' @ (case args (cmds ! i) of [] \<Rightarrow> [] | a # _ \<Rightarrow> a) @ nl"
    let ?evs = "?A @ B @ [CreateProcessA ?cl ?si None, Stderr ?msg]"
    from assms in_eq out_eq cp_eq None
    have res: "hs' = hs" "s' = emit [Stderr ?msg] s3"
      by (simp_all add: launch_stage_def)
    have t: "trace s' = trace s @ ?evs" using res tr3 None by (simp add: emit_def)
    have k: "jobs s' = jobs s" "job_counter s' = job_counter s" "next_handle s \<le> next_handle s'"
      using res keep by (simp_all add: emit_def)
    have p: "launch_attempts ?evs = [?si]" "created_pipes ?evs = []" "closed_handles ?evs = []"
      "launched_processes ?evs = []" "waited_on ?evs = []" "error_messages ?evs = [?msg]"
      "opened_for_reading ?evs
        = (if i = 0 \<and> input_file (cmds ! 0) \<noteq> [] then [input_file (cmds ! 0)] else [])"
      using B(2-8) projA by (simp_all add: projections_append projections_Cons projections_Nil)
    have io: "0 < i \<longrightarrow> hStdInput ?si = rs ! (i - 1)" "i < length cmds - 1 \<longrightarrow> hStdOutput ?si = ws ! i"
      using a(5) b(5) by simp_all
    show ?thesis
      apply (rule exI [of _ ?evs], rule exI [of _ ?si])
      using t p io k res(1) by simp
  next
    case (Some pi)
    from c(5) Some
    have pi: "pi = (H (next_handle s2), H (next_handle s2 + 1), pid_of e (H (next_handle s2)))"
      by simp
    let ?hp = "H (next_handle s2)" and ?ht = "H (next_handle s2 + 1)"
    let ?evs = "?A @ B @ [CreateProcessA ?cl ?si r, CloseHandle ?ht]"
    from assms in_eq out_eq cp_eq Some pi
    have res: "hs' = hs @ [?hp]" "s' = emit [CloseHandle ?ht] s3"
      by (simp_all add: launch_stage_def)
    have t: "trace s' = trace s @ ?evs" using res tr3 by (simp add: emit_def)
    have k: "jobs s' = jobs s" "job_counter s' = job_counter s" "next_handle s \<le> next_handle s'"
      using res keep by (simp_all add: emit_def)
    have p: "launch_attempts ?evs = [?si]" "created_pipes ?evs = []" "closed_handles ?evs = [?ht]"
      "launched_processes ?evs = [?hp]" "waited_on ?evs = []" "error_messages ?evs = []"
      "opened_for_reading ?evs
        = (if i = 0 \<and> input_file (cmds ! 0) \<noteq> [] then [input_file (cmds ! 0)] else [])"
      using B(2-8) projA Some pi
      by (simp_all add: projections_append projections_Cons projections_Nil)
    have io: "0 < i \<longrightarrow> hStdInput ?si = rs ! (i - 1)" "i < length cmds - 1 \<longrightarrow> hStdOutput ?si = ws ! i"
      using a(5) b(5) by simp_all
    have al: "allocated_from (next_handle s) ?hp" "allocated_from (next_handle s) ?ht"
      using nh2 by (simp_all add: allocated_from_H)
    show ?thesis
      apply (rule exI [of _ ?evs], rule exI [of _ ?si])
      using t p io k res(1) al by simp
  qed
qed

lemma launch_upto:
  assumes "foldl (launch_stage e cmds rs ws) ([], s) [0..<m] = (hs, s')"
  shows "\<exists>evs. trace s' = trace s @ evs
      \<and> stages_launched cmds rs ws (next_handle s) m evs hs
      \<and> jobs s' = jobs s \<and> job_counter s' = job_counter s \<and> next_handle s \<le> next_handle s'"
  using assms
proof (induction m arbitrary: hs s')
  case 0
  then have "hs = []" "s' = s" by simp_all
  then show ?case
    by (intro exI [of _ "[]"]) (simp add: stages_launched_def projections_Nil)
next
  case (Suc m)
  obtain hs0 s0 where acc: "foldl (launch_stage e cmds rs ws) ([], s) [0..<m] = (hs0, s0)"
    by (cases "foldl (launch_stage e cmds rs ws) ([], s) [0..<m]")
  from Suc.IH [OF acc] obtain evs0 where
    t0: "trace s0 = trace s @ evs0"
    and inv0: "stages_launched cmds rs ws (next_handle s) m evs0 hs0"
    and k0: "jobs s0 = jobs s" "job_counter s0 = job_counter s" "next_handle s \<le> next_handle s0"
    by blast
  from Suc.prems acc have step: "launch_stage e cmds rs ws (hs0, s0) m = (hs, s')"
    by simp
  from launch_stage_step [OF step] obtain evs1 si where
    all1: "trace s' = trace s0 @ evs1
      \<and> launch_attempts evs1 = [si]
      \<and> (0 < m \<longrightarrow> hStdInput si = rs ! (m - 1))
      \<and> (m < length cmds - 1 \<longrightarrow> hStdOutput si = ws ! m)
      \<and> created_pipes evs1 = []
      \<and> opened_for_reading evs1
          = (if m = 0 \<and> input_file (cmds ! 0) \<noteq> [] then [input_file (cmds ! 0)] else [])
      \<and> hs = hs0 @ launched_processes evs1
      \<and> waited_on evs1 = []
      \<and> (\<forall>h\<in>set (closed_handles evs1). allocated_from (next_handle s0) h)
      \<and> (\<forall>h\<in>set (launched_processes evs1). allocated_from (next_handle s0) h)
      \<and> (\<forall>msg\<in>set (error_messages evs1). \<exists>x. msg = ''Error: Cannot execute '' @ x @ nl)
      \<and> jobs s' = jobs s0 \<and> job_counter s' = job_counter s0 \<and> next_handle s0 \<le> next_handle s'"
    by (elim exE) (rule that)
  have t1: "trace s' = trace s0 @ evs1"
    and la1: "launch_attempts evs1 = [si]"
    and in1: "0 < m \<longrightarrow> hStdInput si = rs ! (m - 1)"
    and out1: "m < length cmds - 1 \<longrightarrow> hStdOutput si = ws ! m"
    and cp1: "created_pipes evs1 = []"
    and or1: "opened_for_reading evs1
          = (if m = 0 \<and> input_file (cmds ! 0) \<noteq> [] then [input_file (cmds ! 0)] else [])"
    and hs1: "hs = hs0 @ launched_processes evs1"
    and w1: "waited_on evs1 = []"
    and cl1: "\<forall>h\<in>set (closed_handles evs1). allocated_from (next_handle s0) h"
    and lp1: "\<forall>h\<in>set (launched_processes evs1). allocated_from (next_handle s0) h"
    and er1: "\<forall>msg\<in>set (error_messages evs1). \<exists>x. msg = ''Error: Cannot execute '' @ x @ nl"
    and k1: "jobs s' = jobs s0" "job_counter s' = job_counter s0" "next_handle s0 \<le> next_handle s'"
    using all1 by - (elim conjE, assumption)+
  note i0 = inv0 [unfolded stages_launched_def]
  let ?evs = "evs0 @ evs1"
  have len: "length (launch_attempts ?evs) = Suc m"
    using i0 la1 by (simp add: projections_append)
  have io: "\<forall>i<Suc m. (0 < i \<longrightarrow> hStdInput (launch_attempts ?evs ! i) = rs ! (i - 1))
               \<and> (i < length cmds - 1 \<longrightarrow> hStdOutput (launch_attempts ?evs ! i) = ws ! i)"
  proof (intro allI impI)
    fix i assume i: "i < Suc m"
    show "(0 < i \<longrightarrow> hStdInput (launch_attempts ?evs ! i) = rs ! (i - 1))
               \<and> (i < length cmds - 1 \<longrightarrow> hStdOutput (launch_attempts ?evs ! i) = ws ! i)"
    proof (cases "i < m")
      case True
      with i0 have "launch_attempts ?evs ! i = launch_attempts evs0 ! i"
        by (simp add: projections_append nth_append)
      with i0 True show ?thesis by simp
    next
      case False
      with i have im: "i = m" by simp
      with i0 la1 have "launch_attempts ?evs ! i = si"
        by (simp add: projections_append nth_append)
      with in1 out1 im show ?thesis by simp
    qed
  qed
  have cp: "created_pipes ?evs = []" using i0 cp1 by (simp add: projections_append)
  have "opened_for_reading ?evs
      = (if 0 < Suc m \<and> input_file (cmds ! 0) \<noteq> [] then [input_file (cmds ! 0)] else [])"
    using i0 or1 by (cases m) (simp_all add: projections_append)
  note orr = this
  have lp: "launched_processes ?evs = hs" using i0 hs1 by (simp add: projections_append)
  have w: "waited_on ?evs = []" using i0 w1 by (simp add: projections_append)
  have cl: "\<forall>h\<in>set (closed_handles ?evs). allocated_from (next_handle s) h"
    using i0 cl1 k0(3) by (auto simp: projections_append intro: allocated_from_mono)
  have al: "\<forall>h\<in>set hs. allocated_from (next_handle s) h"
    using i0 lp1 hs1 k0(3) by (auto intro: allocated_from_mono)
  have er: "\<forall>msg\<in>set (error_messages ?evs). \<exists>x. msg = ''Error: Cannot execute '' @ x @ nl"
    using i0 er1 by (auto simp: projections_append)
  have inv: "stages_launched cmds rs ws (next_handle s) (Suc m) ?evs hs"
    unfolding stages_launched_def
    using len io cp orr lp w cl al er by blast
  have "trace s' = trace s @ ?evs" using t0 t1 by simp
  moreover have "jobs s' = jobs s" "job_counter s' = job_counter s" "next_handle s \<le> next_handle s'"
    using k0 k1 by simp_all
  ultimately show ?case using inv by blast
qed

lemma launch_stages_summary:
  assumes "launch_stages e cmds rs ws s = (hs, s')"
  shows "\<exists>evs. trace s' = trace s @ evs
      \<and> stages_launched cmds rs ws (next_handle s) (length cmds) evs hs
      \<and> jobs s' = jobs s \<and> job_counter s' = job_counter s \<and> next_handle s \<le> next_handle s'"
  using assms unfolding launch_stages_def by (rule launch_upto)

lemma create_pipes_keeps:
  "create_pipes e i n rs ws s = (r, s') \<Longrightarrow>
   jobs s' = jobs s \<and> job_counter s' = job_counter s"
proof (induction n arbitrary: i rs ws s)
  case 0
  then show ?case by simp
next
  case (Suc n)
  show ?case
  proof (cases "pipe_ok e i")
    case True
    let ?s1 = "(emit [CreatePipe (Some (H (next_handle s), H (next_handle s + 1)))] s)
               \<lparr>next_handle := next_handle s + 2\<rparr>"
    have cp: "create_pipe e i s = (Some (H (next_handle s), H (next_handle s + 1)), ?s1)"
      using True by (simp add: create_pipe_def)
    from Suc.prems cp
    have "create_pipes e (Suc i) n (rs @ [H (next_handle s)]) (ws @ [H (next_handle s + 1)]) ?s1
        = (r, s')" by simp
    from Suc.IH [OF this] show ?thesis by (simp add: emit_def)
  next
    case False
    then have "create_pipe e i s = (None, emit [CreatePipe None] s)"
      by (simp add: create_pipe_def)
    with Suc.prems show ?thesis by (auto simp: emit_def)
  qed
qed

text \<open>What \<open>finish_pipeline\<close> adds after the pipe handles are closed.\<close>

lemma finish_pipeline_step:
  "\<exists>F. trace (finish_pipeline e cmds rs ws hs s)
          = trace s @ map CloseHandle rs @ map CloseHandle ws @ F
      \<and> created_pipes F = [] \<and> launch_attempts F = [] \<and> opened_for_reading F = []
      \<and> error_messages F = [] \<and> launched_processes F = []
      \<and> waited_on F = (if background (last cmds) \<or> hs = [] then [] else [hs])
      \<and> closed_handles F = (if background (last cmds) then drop 1 hs else hs)"
proof (cases "background (last cmds)")
  case True
  let ?job = "add_job (hs ! 0) (pid_of e (hs ! 0)) (pipeline_string cmds)
                (emit (map CloseHandle rs @ map CloseHandle ws) s)"
  let ?F = "(if hs \<noteq> [] then [Stdout (''['' @ show_int (int32 (job_counter ?job - 1)) @ ''] ''
                                          @ show_nat (pid_of e (hs ! 0)) @ nl)] else [])
            @ map CloseHandle (drop 1 hs)"
  have "trace (finish_pipeline e cmds rs ws hs s)
          = trace s @ map CloseHandle rs @ map CloseHandle ws @ ?F"
    using True by (simp add: finish_pipeline_def Let_def emit_def add_job_def)
  moreover have "created_pipes ?F = [] \<and> launch_attempts ?F = [] \<and> opened_for_reading ?F = []
      \<and> error_messages ?F = [] \<and> launched_processes ?F = []
      \<and> waited_on ?F = [] \<and> closed_handles ?F = drop 1 hs"
    by (simp add: projections_append projections_Cons projections_Nil projections_closes)
  ultimately show ?thesis using True by (intro exI [of _ ?F]) simp
next
  case False
  let ?F = "(if hs \<noteq> [] then [WaitForMultipleObjects hs] else []) @ map CloseHandle hs"
  have "trace (finish_pipeline e cmds rs ws hs s)
          = trace s @ map CloseHandle rs @ map CloseHandle ws @ ?F"
    using False by (simp add: finish_pipeline_def Let_def emit_def)
  moreover have "created_pipes ?F = [] \<and> launch_attempts ?F = [] \<and> opened_for_reading ?F = []
      \<and> error_messages ?F = [] \<and> launched_processes ?F = []
      \<and> waited_on ?F = (if hs = [] then [] else [hs]) \<and> closed_handles ?F = hs"
    by (simp add: projections_append projections_Cons projections_Nil projections_closes)
  ultimately show ?thesis using False by (intro exI [of _ ?F]) simp
qed

lemma finish_pipeline_jobs:
  "jobs (finish_pipeline e cmds rs ws hs s)
     = (if background (last cmds) \<and> hs \<noteq> [] then
          map_assign (job_counter s)
            \<lparr>hProcess = hs ! 0, processId = pid_of e (hs ! 0),
               command = pipeline_string cmds, completed = False\<rparr> (jobs s)
        else jobs s)"
  "job_counter (finish_pipeline e cmds rs ws hs s)
     = (if background (last cmds) \<and> hs \<noteq> [] then int32 (job_counter s + 1) else job_counter s)"
  by (simp_all add: finish_pipeline_def Let_def emit_def add_job_def)

lemma execute_pipeline_multi:
  "2 \<le> length cmds \<Longrightarrow> execute_pipeline e cmds s = run_pipeline e cmds s"
  by (auto simp: execute_pipeline_def)

text \<open>The trace of a pipeline of two or more stages when every pipe is created: the
  pipes, the launch loop, the closing of every read end and every write end, and what
  follows the decision on the background flag.\<close>

lemma pipeline_shape:
  assumes n: "2 \<le> length cmds" and ok: "\<forall>k<length cmds - 1. pipe_ok e k"
  shows "\<exists>L F hs.
      trace (execute_pipeline e cmds s)
        = trace s @ map (\<lambda>p. CreatePipe (Some p)) (fresh_pipes (next_handle s) (length cmds - 1))
            @ L @ map CloseHandle (map fst (fresh_pipes (next_handle s) (length cmds - 1)))
            @ map CloseHandle (map snd (fresh_pipes (next_handle s) (length cmds - 1))) @ F
      \<and> stages_launched cmds (map fst (fresh_pipes (next_handle s) (length cmds - 1)))
           (map snd (fresh_pipes (next_handle s) (length cmds - 1)))
           (next_handle s + 2 * (length cmds - 1)) (length cmds) L hs
      \<and> created_pipes F = [] \<and> launch_attempts F = [] \<and> opened_for_reading F = []
      \<and> error_messages F = [] \<and> launched_processes F = []
      \<and> waited_on F = (if background (last cmds) \<or> hs = [] then [] else [hs])
      \<and> closed_handles F = (if background (last cmds) then drop 1 hs else hs)
      \<and> jobs (execute_pipeline e cmds s)
          = (if background (last cmds) \<and> hs \<noteq> [] then
               map_assign (job_counter s)
                 \<lparr>hProcess = hs ! 0, processId = pid_of e (hs ! 0),
                    command = pipeline_string cmds, completed = False\<rparr> (jobs s)
             else jobs s)
      \<and> job_counter (execute_pipeline e cmds s)
          = (if background (last cmds) \<and> hs \<noteq> [] then int32 (job_counter s + 1) else job_counter s)"
proof -
  let ?P = "fresh_pipes (next_handle s) (length cmds - 1)"
  let ?rs = "map fst ?P" and ?ws = "map snd ?P"
  let ?s1 = "s\<lparr>next_handle := next_handle s + 2 * (length cmds - 1),
               trace := trace s @ map (\<lambda>p. CreatePipe (Some p)) ?P\<rparr>"
  from ok have "\<forall>k. 0 \<le> k \<and> k < 0 + (length cmds - 1) \<longrightarrow> pipe_ok e k" by simp
  from create_pipes_ok [OF this, of "[]" "[]" s]
  have cp: "create_pipes e 0 (length cmds - 1) [] [] s = (Some (?rs, ?ws), ?s1)" by simp
  obtain hs s2 where ls: "launch_stages e cmds ?rs ?ws ?s1 = (hs, s2)"
    by (cases "launch_stages e cmds ?rs ?ws ?s1")
  from launch_stages_summary [OF ls] obtain L where
    L: "trace s2 = trace ?s1 @ L"
      "stages_launched cmds ?rs ?ws (next_handle ?s1) (length cmds) L hs"
      "jobs s2 = jobs ?s1" "job_counter s2 = job_counter ?s1"
    by blast
  have res: "execute_pipeline e cmds s = finish_pipeline e cmds ?rs ?ws hs s2"
    using n cp ls by (simp add: execute_pipeline_multi run_pipeline_def)
  from finish_pipeline_step [of e cmds ?rs ?ws hs s2] obtain F where
    F: "trace (finish_pipeline e cmds ?rs ?ws hs s2)
          = trace s2 @ map CloseHandle ?rs @ map CloseHandle ?ws @ F"
      "created_pipes F = []" "launch_attempts F = []" "opened_for_reading F = []"
      "error_messages F = []" "launched_processes F = []"
      "waited_on F = (if background (last cmds) \<or> hs = [] then [] else [hs])"
      "closed_handles F = (if background (last cmds) then drop 1 hs else hs)"
    by blast
  have t: "trace (execute_pipeline e cmds s)
        = trace s @ map (\<lambda>p. CreatePipe (Some p)) ?P @ L @ map CloseHandle ?rs
            @ map CloseHandle ?ws @ F"
    using res F(1) L(1) by simp
  have st: "stages_launched cmds ?rs ?ws (next_handle s + 2 * (length cmds - 1)) (length cmds) L hs"
    using L(2) by simp
  have j: "jobs (execute_pipeline e cmds s)
          = (if background (last cmds) \<and> hs \<noteq> [] then
               map_assign (job_counter s)
                 \<lparr>hProcess = hs ! 0, processId = pid_of e (hs ! 0),
                    command = pipeline_string cmds, completed = False\<rparr> (jobs s)
             else jobs s)"
    and c: "job_counter (execute_pipeline e cmds s)
          = (if background (last cmds) \<and> hs \<noteq> [] then int32 (job_counter s + 1) else job_counter s)"
    using L(3,4) by (simp_all add: res finish_pipeline_jobs)
  show ?thesis
    apply (rule exI [of _ L], rule exI [of _ F], rule exI [of _ hs])
    using t st F(2-8) j c by (intro conjI)
qed

text \<open>The trace when the \<open>m\<close>-th \<^verbatim>\<open>CreatePipe\<close> is the first to fail.\<close>

lemma pipeline_pipe_failure:
  assumes n: "2 \<le> length cmds" and m: "m < length cmds - 1"
    and ok: "\<forall>k<m. pipe_ok e k" and bad: "\<not> pipe_ok e m"
  shows "execute_pipeline e cmds s
           = s\<lparr>next_handle := next_handle s + 2 * m,
               trace := trace s @ map (\<lambda>p. CreatePipe (Some p)) (fresh_pipes (next_handle s) m)
                          @ [CreatePipe None, Stderr (''Error: Cannot create pipe'' @ nl)]\<rparr>"
proof -
  from ok have a: "\<forall>k. 0 \<le> k \<and> k < 0 + m \<longrightarrow> pipe_ok e k" by simp
  from bad have b: "\<not> pipe_ok e (0 + m)" by simp
  from create_pipes_fail [OF a b m, of "[]" "[]" s] n show ?thesis
    by (simp add: execute_pipeline_multi run_pipeline_def)
qed

text \<open>The pipeline path reads nothing else of the commands.\<close>

lemma launch_stage_same:
  assumes same: "same_for_pipeline cmds cmds'" and i: "i < length cmds"
  shows "launch_stage e cmds' rs ws acc i = launch_stage e cmds rs ws acc i"
proof -
  from same have len: "length cmds' = length cmds" by (simp add: same_for_pipeline_def)
  from same i have a: "args (cmds' ! i) = args (cmds ! i)"
    using nth_map [of i cmds' args] nth_map [of i cmds args]
    by (simp add: same_for_pipeline_def)
  from i have ne: "cmds \<noteq> []" "cmds' \<noteq> []" using len by auto
  have last: "cmds ! (length cmds - 1) = last cmds" "cmds' ! (length cmds - 1) = last cmds'"
    using ne len by (simp_all add: last_conv_nth)
  have inp: "setup_stdin e cmds' rs i = setup_stdin e cmds rs i"
    using same by (auto simp: setup_stdin_def same_for_pipeline_def fun_eq_iff)
  have out: "setup_stdout e cmds' ws i = setup_stdout e cmds ws i"
    using same last len by (auto simp: setup_stdout_def same_for_pipeline_def fun_eq_iff)
  show ?thesis
    unfolding launch_stage_def inp out a ..
qed


lemma pipeline_string_same:
  "map args cmds' = map args cmds \<Longrightarrow> pipeline_string cmds' = pipeline_string cmds"
proof (induction cmds arbitrary: cmds' rule: pipeline_string.induct)
  case 1
  then show ?case by simp
next
  case (2 c)
  then obtain c' where "cmds' = [c']" "args c' = args c" by (cases cmds') auto
  then show ?case by simp
next
  case (3 c d rest)
  from "3.prems" obtain c' tl' where a: "cmds' = c' # tl'" "args c' = args c"
    "map args tl' = map args (d # rest)"
    by (cases cmds') auto
  from a(3) obtain d' rest' where b: "tl' = d' # rest'" by (cases tl') auto
  from "3.IH" [OF a(3)] have "pipeline_string tl' = pipeline_string (d # rest)" .
  then show ?case by (simp add: a(1,2) b)
qed

lemma pipeline_reads_only:
  assumes same: "same_for_pipeline cmds cmds'" and n: "2 \<le> length cmds"
  shows "execute_pipeline e cmds' s = execute_pipeline e cmds s"
proof -
  from same have len: "length cmds' = length cmds" by (simp add: same_for_pipeline_def)
  have ls: "launch_stages e cmds' rs ws t = launch_stages e cmds rs ws t" for rs ws t
    unfolding launch_stages_def len
    by (rule foldl_cong [OF refl refl]) (simp add: launch_stage_same [OF same])
  from same have "map args cmds' = map args cmds" by (simp add: same_for_pipeline_def)
  then have ps: "pipeline_string cmds' = pipeline_string cmds" by (rule pipeline_string_same)
  from same have bg: "background (last cmds') = background (last cmds)"
    by (simp add: same_for_pipeline_def)
  have fin: "finish_pipeline e cmds' rs ws hs t = finish_pipeline e cmds rs ws hs t" for rs ws hs t
    unfolding finish_pipeline_def ps bg ..
  have "run_pipeline e cmds' s = run_pipeline e cmds s"
    unfolding run_pipeline_def len ls fin ..
  with n len show ?thesis by (simp add: execute_pipeline_multi)
qed

subsection \<open>Pipe handles\<close>

lemma distinct_count: "distinct xs \<Longrightarrow> x \<in> set xs \<Longrightarrow> count_list xs x = 1"
  by (induction xs) auto

lemma fresh_pipes_member:
  "p \<in> set (fresh_pipes nh n) \<longleftrightarrow> (\<exists>j<n. p = (H (nh + 2 * j), H (nh + 2 * j + 1)))"
  by (auto simp: fresh_pipes_def)

lemma fresh_pipes_not_allocated:
  assumes "p \<in> set (fresh_pipes nh n)"
  shows "\<not> allocated_from (nh + 2 * n) (fst p)" and "\<not> allocated_from (nh + 2 * n) (snd p)"
  using assms by (auto simp: fresh_pipes_member allocated_from_H)

lemma fresh_pipes_distinct:
  "distinct (map fst (fresh_pipes nh n) @ map snd (fresh_pipes nh n))"
proof -
  have f: "map fst (fresh_pipes nh n) = map (\<lambda>j. H (nh + 2 * j)) [0..<n]"
    and s: "map snd (fresh_pipes nh n) = map (\<lambda>j. H (nh + 2 * j + 1)) [0..<n]"
    by (simp_all add: fresh_pipes_def comp_def)
  have "distinct (map (\<lambda>j. H (nh + 2 * j)) [0..<n])"
    by (simp add: distinct_map inj_on_def)
  moreover have "distinct (map (\<lambda>j. H (nh + 2 * j + 1)) [0..<n])"
    by (simp add: distinct_map inj_on_def)
  moreover have "set (map (\<lambda>j. H (nh + 2 * j)) [0..<n])
      \<inter> set (map (\<lambda>j. H (nh + 2 * j + 1)) [0..<n]) = {}"
  proof -
    have "nh + 2 * j \<noteq> nh + 2 * j' + 1" for j j' :: nat by presburger
    then show ?thesis by auto
  qed
  ultimately show ?thesis unfolding f s distinct_append by (intro conjI)
qed

lemma fresh_pipes_count:
  assumes "p \<in> set (fresh_pipes nh n)"
  shows "count_list (map fst (fresh_pipes nh n) @ map snd (fresh_pipes nh n)) (fst p) = 1"
    and "count_list (map fst (fresh_pipes nh n) @ map snd (fresh_pipes nh n)) (snd p) = 1"
proof -
  from assms have "fst p \<in> set (map fst (fresh_pipes nh n) @ map snd (fresh_pipes nh n))"
    and "snd p \<in> set (map fst (fresh_pipes nh n) @ map snd (fresh_pipes nh n))"
    by auto
  then show "count_list (map fst (fresh_pipes nh n) @ map snd (fresh_pipes nh n)) (fst p) = 1"
    and "count_list (map fst (fresh_pipes nh n) @ map snd (fresh_pipes nh n)) (snd p) = 1"
    using fresh_pipes_distinct [of nh n] by (simp_all only: distinct_count)
qed



text \<open>What a pipeline of two or more stages adds to the trace when every pipe is
  created, in terms of the events alone.\<close>

lemma pipeline_events:
  assumes n: "2 \<le> length cmds" and ok: "\<forall>k<length cmds - 1. pipe_ok e k"
  shows "created_pipes (new_events s (execute_pipeline e cmds s))
           = fresh_pipes (next_handle s) (length cmds - 1)"
    and "length (launch_attempts (new_events s (execute_pipeline e cmds s))) = length cmds"
    and "\<forall>i<length cmds.
           (0 < i \<longrightarrow> hStdInput (launch_attempts (new_events s (execute_pipeline e cmds s)) ! i)
                        = fst (fresh_pipes (next_handle s) (length cmds - 1) ! (i - 1)))
         \<and> (i < length cmds - 1 \<longrightarrow>
              hStdOutput (launch_attempts (new_events s (execute_pipeline e cmds s)) ! i)
                = snd (fresh_pipes (next_handle s) (length cmds - 1) ! i))"
    and "opened_for_reading (new_events s (execute_pipeline e cmds s))
           = (if input_file (cmds ! 0) \<noteq> [] then [input_file (cmds ! 0)] else [])"
    and "waited_on (new_events s (execute_pipeline e cmds s))
           = (if background (last cmds)
                 \<or> launched_processes (new_events s (execute_pipeline e cmds s)) = [] then []
              else [launched_processes (new_events s (execute_pipeline e cmds s))])"
    and "\<forall>msg\<in>set (error_messages (new_events s (execute_pipeline e cmds s))).
           \<exists>x. msg = ''Error: Cannot execute '' @ x @ nl"
    and "\<forall>p\<in>set (fresh_pipes (next_handle s) (length cmds - 1)).
           count_list (closed_handles (new_events s (execute_pipeline e cmds s))) (fst p) = 1
         \<and> count_list (closed_handles (new_events s (execute_pipeline e cmds s))) (snd p) = 1"
    and "\<exists>L R. new_events s (execute_pipeline e cmds s)
                 = map (\<lambda>p. CreatePipe (Some p)) (fresh_pipes (next_handle s) (length cmds - 1))
                   @ L @ R
            \<and> length (launch_attempts L) = length cmds \<and> launch_attempts R = []
            \<and> (\<forall>p\<in>set (fresh_pipes (next_handle s) (length cmds - 1)).
                 fst p \<notin> set (closed_handles L) \<and> snd p \<notin> set (closed_handles L))"
    and "jobs (execute_pipeline e cmds s)
          = (if background (last cmds)
                \<and> launched_processes (new_events s (execute_pipeline e cmds s)) \<noteq> [] then
               map_assign (job_counter s)
                 \<lparr>hProcess = hd (launched_processes (new_events s (execute_pipeline e cmds s))),
                  processId = pid_of e
                    (hd (launched_processes (new_events s (execute_pipeline e cmds s)))),
                  command = pipeline_string cmds, completed = False\<rparr> (jobs s)
             else jobs s)"
    and "job_counter (execute_pipeline e cmds s)
          = (if background (last cmds)
                \<and> launched_processes (new_events s (execute_pipeline e cmds s)) \<noteq> []
             then int32 (job_counter s + 1) else job_counter s)"
proof -
  let ?P = "fresh_pipes (next_handle s) (length cmds - 1)"
  let ?new = "new_events s (execute_pipeline e cmds s)"
  let ?nh = "next_handle s + 2 * (length cmds - 1)"
  from pipeline_shape [OF n ok, of s] obtain L F hs where
    all: "trace (execute_pipeline e cmds s)
        = trace s @ map (\<lambda>p. CreatePipe (Some p)) ?P
            @ L @ map CloseHandle (map fst ?P) @ map CloseHandle (map snd ?P) @ F
      \<and> stages_launched cmds (map fst ?P) (map snd ?P) ?nh (length cmds) L hs
      \<and> created_pipes F = [] \<and> launch_attempts F = [] \<and> opened_for_reading F = []
      \<and> error_messages F = [] \<and> launched_processes F = []
      \<and> waited_on F = (if background (last cmds) \<or> hs = [] then [] else [hs])
      \<and> closed_handles F = (if background (last cmds) then drop 1 hs else hs)
      \<and> jobs (execute_pipeline e cmds s)
          = (if background (last cmds) \<and> hs \<noteq> [] then
               map_assign (job_counter s)
                 \<lparr>hProcess = hs ! 0, processId = pid_of e (hs ! 0),
                    command = pipeline_string cmds, completed = False\<rparr> (jobs s)
             else jobs s)
      \<and> job_counter (execute_pipeline e cmds s)
          = (if background (last cmds) \<and> hs \<noteq> [] then int32 (job_counter s + 1) else job_counter s)"
    by (elim exE) (rule that)
  have tr: "trace (execute_pipeline e cmds s)
        = trace s @ map (\<lambda>p. CreatePipe (Some p)) ?P
            @ L @ map CloseHandle (map fst ?P) @ map CloseHandle (map snd ?P) @ F"
    and st: "stages_launched cmds (map fst ?P) (map snd ?P) ?nh (length cmds) L hs"
    and F: "created_pipes F = []" "launch_attempts F = []" "opened_for_reading F = []"
      "error_messages F = []" "launched_processes F = []"
    and wF: "waited_on F = (if background (last cmds) \<or> hs = [] then [] else [hs])"
    and cF: "closed_handles F = (if background (last cmds) then drop 1 hs else hs)"
    and jb: "jobs (execute_pipeline e cmds s)
          = (if background (last cmds) \<and> hs \<noteq> [] then
               map_assign (job_counter s)
                 \<lparr>hProcess = hs ! 0, processId = pid_of e (hs ! 0),
                    command = pipeline_string cmds, completed = False\<rparr> (jobs s)
             else jobs s)"
    and jc: "job_counter (execute_pipeline e cmds s)
          = (if background (last cmds) \<and> hs \<noteq> [] then int32 (job_counter s + 1) else job_counter s)"
    using all by - (elim conjE, assumption)+
  have new: "?new = map (\<lambda>p. CreatePipe (Some p)) ?P
            @ L @ map CloseHandle (map fst ?P) @ map CloseHandle (map snd ?P) @ F"
    using tr by (rule new_events_append)
  have L: "length (launch_attempts L) = length cmds"
    "\<forall>i<length cmds. (0 < i \<longrightarrow> hStdInput (launch_attempts L ! i) = map fst ?P ! (i - 1))
               \<and> (i < length cmds - 1 \<longrightarrow> hStdOutput (launch_attempts L ! i) = map snd ?P ! i)"
    "created_pipes L = []"
    "opened_for_reading L
          = (if 0 < length cmds \<and> input_file (cmds ! 0) \<noteq> [] then [input_file (cmds ! 0)] else [])"
    "launched_processes L = hs"
    "waited_on L = []"
    "\<forall>h\<in>set (closed_handles L). allocated_from ?nh h"
    "\<forall>h\<in>set hs. allocated_from ?nh h"
    "\<forall>msg\<in>set (error_messages L). \<exists>x. msg = ''Error: Cannot execute '' @ x @ nl"
    using st unfolding stages_launched_def by - (elim conjE, assumption)+
  have la: "launch_attempts ?new = launch_attempts L"
    and cp: "created_pipes ?new = ?P"
    and orr: "opened_for_reading ?new = opened_for_reading L"
    and lp: "launched_processes ?new = hs"
    and wo: "waited_on ?new = waited_on F"
    and em: "error_messages ?new = error_messages L"
    and ch: "closed_handles ?new = closed_handles L @ (map fst ?P @ map snd ?P) @ closed_handles F"
    unfolding new
    by (simp_all add: projections_append projections_pipes projections_closes F L(3,5,6)
          del: map_map)
  show "created_pipes ?new = ?P" by (rule cp)
  show "length (launch_attempts ?new) = length cmds" by (simp add: la L(1))
  show "\<forall>i<length cmds.
           (0 < i \<longrightarrow> hStdInput (launch_attempts ?new ! i) = fst (?P ! (i - 1)))
         \<and> (i < length cmds - 1 \<longrightarrow> hStdOutput (launch_attempts ?new ! i) = snd (?P ! i))"
  proof (intro allI impI conjI)
    fix i assume i: "i < length cmds" and pos: "0 < i"
    from L(2) i pos have "hStdInput (launch_attempts L ! i) = map fst ?P ! (i - 1)" by blast
    moreover from i pos have "i - 1 < length ?P" by (simp add: length_fresh_pipes)
    ultimately show "hStdInput (launch_attempts ?new ! i) = fst (?P ! (i - 1))"
      by (simp add: la)
  next
    fix i assume i: "i < length cmds" and lt: "i < length cmds - 1"
    from L(2) i lt have "hStdOutput (launch_attempts L ! i) = map snd ?P ! i" by blast
    moreover from lt have "i < length ?P" by (simp add: length_fresh_pipes)
    ultimately show "hStdOutput (launch_attempts ?new ! i) = snd (?P ! i)"
      by (simp add: la)
  qed
  show "opened_for_reading ?new
           = (if input_file (cmds ! 0) \<noteq> [] then [input_file (cmds ! 0)] else [])"
    using n by (auto simp: orr L(4))
  show "waited_on ?new
           = (if background (last cmds) \<or> launched_processes ?new = [] then []
              else [launched_processes ?new])"
    by (simp add: wo wF lp)
  show "\<forall>msg\<in>set (error_messages ?new). \<exists>x. msg = ''Error: Cannot execute '' @ x @ nl"
    unfolding em by (rule L(9))
  have notL: "fst p \<notin> set (closed_handles L) \<and> snd p \<notin> set (closed_handles L)"
    if "p \<in> set ?P" for p
    using fresh_pipes_not_allocated [OF that] L(7) by blast
  have "set (closed_handles F) \<subseteq> set hs"
    using set_drop_subset [of 1 hs] by (simp add: cF)
  then have notF: "fst p \<notin> set (closed_handles F) \<and> snd p \<notin> set (closed_handles F)"
    if "p \<in> set ?P" for p
    using fresh_pipes_not_allocated [OF that] L(8) by blast
  show "\<forall>p\<in>set ?P. count_list (closed_handles ?new) (fst p) = 1
         \<and> count_list (closed_handles ?new) (snd p) = 1"
  proof
    fix p assume p: "p \<in> set ?P"
    from notL [OF p] notF [OF p]
    have z: "count_list (closed_handles L) (fst p) = 0" "count_list (closed_handles L) (snd p) = 0"
      "count_list (closed_handles F) (fst p) = 0" "count_list (closed_handles F) (snd p) = 0"
      by (simp_all add: count_list_0_iff)
    show "count_list (closed_handles ?new) (fst p) = 1
         \<and> count_list (closed_handles ?new) (snd p) = 1"
    proof -
      define Q where "Q = map fst ?P @ map snd ?P"
      have q: "count_list Q (fst p) = 1" "count_list Q (snd p) = 1"
        unfolding Q_def by (rule fresh_pipes_count [OF p])+
      have "closed_handles ?new = closed_handles L @ Q @ closed_handles F"
        unfolding Q_def by (rule ch)
      then show ?thesis by (simp add: z q)
    qed
  qed
  show "\<exists>L R. ?new = map (\<lambda>p. CreatePipe (Some p)) ?P @ L @ R
            \<and> length (launch_attempts L) = length cmds \<and> launch_attempts R = []
            \<and> (\<forall>p\<in>set ?P. fst p \<notin> set (closed_handles L) \<and> snd p \<notin> set (closed_handles L))"
  proof (intro exI conjI)
    show "?new = map (\<lambda>p. CreatePipe (Some p)) ?P @ L
                 @ (map CloseHandle (map fst ?P) @ map CloseHandle (map snd ?P) @ F)"
      by (rule new)
    show "length (launch_attempts L) = length cmds" by (rule L(1))
    show "launch_attempts (map CloseHandle (map fst ?P) @ map CloseHandle (map snd ?P) @ F) = []"
      by (simp add: projections_append projections_closes F del: map_map)
    show "\<forall>p\<in>set ?P. fst p \<notin> set (closed_handles L) \<and> snd p \<notin> set (closed_handles L)"
      using notL by blast
  qed
  have hd: "hs \<noteq> [] \<Longrightarrow> hs ! 0 = hd hs" by (simp add: hd_conv_nth)
  show "jobs (execute_pipeline e cmds s)
          = (if background (last cmds) \<and> launched_processes ?new \<noteq> [] then
               map_assign (job_counter s)
                 \<lparr>hProcess = hd (launched_processes ?new),
                  processId = pid_of e (hd (launched_processes ?new)),
                  command = pipeline_string cmds, completed = False\<rparr> (jobs s)
             else jobs s)"
    using hd by (simp add: jb lp)
  show "job_counter (execute_pipeline e cmds s)
          = (if background (last cmds) \<and> launched_processes ?new \<noteq> []
             then int32 (job_counter s + 1) else job_counter s)"
    by (simp add: jc lp)
qed

text \<open>The standard input of the first stage is whatever \<^verbatim>\<open>CreateFileA\<close> returned.\<close>

lemma launch_stage_first:
  assumes "launch_stage e cmds rs ws (hs, s) 0 = (hs', s')"
  shows "\<exists>evs si. trace s' = trace s @ evs \<and> launch_attempts evs = [si]
      \<and> hStdInput si
          = (if input_file (cmds ! 0) = [] then STD_INPUT
             else if open_read_ok e (input_file (cmds ! 0)) then H (next_handle s)
             else INVALID_HANDLE_VALUE)"
proof -
  obtain hin s1 where in_eq: "setup_stdin e cmds rs 0 s = (hin, s1)"
    by (cases "setup_stdin e cmds rs 0 s")
  obtain hout s2 where out_eq: "setup_stdout e cmds ws 0 s1 = (hout, s2)"
    by (cases "setup_stdout e cmds ws 0 s1")
  let ?si = "\<lparr>hStdInput = hin, hStdOutput = hout, hStdError = STD_ERROR, use_std_handles = True\<rparr>"
  let ?cl = "build_command_line (args (cmds ! 0))"
  obtain r s3 where cp_eq: "create_process e 0 ?cl ?si s2 = (r, s3)"
    by (cases "create_process e 0 ?cl ?si s2")
  have hin: "hin = (if input_file (cmds ! 0) = [] then STD_INPUT
             else if open_read_ok e (input_file (cmds ! 0)) then H (next_handle s)
             else INVALID_HANDLE_VALUE)"
    using in_eq by (auto simp: setup_stdin_def create_file_def split: if_splits)
  from setup_stdin_step(1) [OF in_eq] obtain A where
    A: "trace s1 = trace s @ A" "launch_attempts A = []"
    by (auto simp: projections)
  from setup_stdout_step(1) [OF out_eq] obtain B where
    B: "trace s2 = trace s1 @ B" "launch_attempts B = []" by blast
  from create_process_step(1) [OF cp_eq]
  have C: "trace s3 = trace s2 @ [CreateProcessA ?cl ?si r]" .
  from assms in_eq out_eq cp_eq obtain x where
    x: "s' = emit [x] s3" "launch_attempts [x] = []"
    by (cases r) (auto simp: launch_stage_def projections)
  have t: "trace s' = trace s @ (A @ B @ [CreateProcessA ?cl ?si r] @ [x])"
    using A(1) B(1) C x(1) by (simp add: emit_def)
  have l: "launch_attempts (A @ B @ [CreateProcessA ?cl ?si r] @ [x]) = [?si]"
    using A(2) B(2) x(2) by (simp add: projections)
  have h: "hStdInput ?si
          = (if input_file (cmds ! 0) = [] then STD_INPUT
             else if open_read_ok e (input_file (cmds ! 0)) then H (next_handle s)
             else INVALID_HANDLE_VALUE)"
    using hin by simp
  show ?thesis
    by (rule exI [of _ "A @ B @ [CreateProcessA ?cl ?si r] @ [x]"], rule exI [of _ ?si])
       (intro conjI t l h)
qed

lemma launch_fold_extends:
  "foldl (launch_stage e cmds rs ws) (hs, s) xs = (hs', s') \<Longrightarrow> \<exists>evs. trace s' = trace s @ evs"
proof (induction xs arbitrary: hs s)
  case Nil
  then show ?case by simp
next
  case (Cons i xs)
  obtain h1 s1 where st: "launch_stage e cmds rs ws (hs, s) i = (h1, s1)"
    by (cases "launch_stage e cmds rs ws (hs, s) i")
  from launch_stage_step [OF st] obtain evs1 where e1: "trace s1 = trace s @ evs1" by blast
  from Cons.prems st have "foldl (launch_stage e cmds rs ws) (h1, s1) xs = (hs', s')" by simp
  from Cons.IH [OF this] obtain evs2 where "trace s' = trace s1 @ evs2" by blast
  with e1 show ?case by simp
qed

lemma first_stage_input:
  assumes n: "2 \<le> length cmds" and ok: "\<forall>k<length cmds - 1. pipe_ok e k"
  shows "hStdInput (launch_attempts (new_events s (execute_pipeline e cmds s)) ! 0)
          = (if input_file (cmds ! 0) = [] then STD_INPUT
             else if open_read_ok e (input_file (cmds ! 0))
               then H (next_handle s + 2 * (length cmds - 1))
             else INVALID_HANDLE_VALUE)"
proof -
  let ?P = "fresh_pipes (next_handle s) (length cmds - 1)"
  let ?rs = "map fst ?P" and ?ws = "map snd ?P"
  let ?s1 = "s\<lparr>next_handle := next_handle s + 2 * (length cmds - 1),
               trace := trace s @ map (\<lambda>p. CreatePipe (Some p)) ?P\<rparr>"
  from ok have "\<forall>k. 0 \<le> k \<and> k < 0 + (length cmds - 1) \<longrightarrow> pipe_ok e k" by simp
  from create_pipes_ok [OF this, of "[]" "[]" s]
  have cp: "create_pipes e 0 (length cmds - 1) [] [] s = (Some (?rs, ?ws), ?s1)" by simp
  obtain hs s2 where ls: "launch_stages e cmds ?rs ?ws ?s1 = (hs, s2)"
    by (cases "launch_stages e cmds ?rs ?ws ?s1")
  obtain h0 t0 where st0: "launch_stage e cmds ?rs ?ws ([], ?s1) 0 = (h0, t0)"
    by (cases "launch_stage e cmds ?rs ?ws ([], ?s1) 0")
  from n have "0 < length cmds" by (cases cmds) simp_all
  then have "[0..<length cmds] = 0 # [Suc 0..<length cmds]" by (rule upt_conv_Cons)
  then have "[0..<length cmds] = 0 # [1..<length cmds]" by simp
  with ls st0 have rest: "foldl (launch_stage e cmds ?rs ?ws) (h0, t0) [1..<length cmds] = (hs, s2)"
    by (simp add: launch_stages_def)
  from launch_stage_first [OF st0] obtain evs si where
    first: "trace t0 = trace ?s1 @ evs" "launch_attempts evs = [si]"
      "hStdInput si = (if input_file (cmds ! 0) = [] then STD_INPUT
             else if open_read_ok e (input_file (cmds ! 0)) then H (next_handle ?s1)
             else INVALID_HANDLE_VALUE)" by blast
  from launch_fold_extends [OF rest] obtain evs' where e': "trace s2 = trace t0 @ evs'" by blast
  have res: "execute_pipeline e cmds s = finish_pipeline e cmds ?rs ?ws hs s2"
    using n cp ls by (simp add: execute_pipeline_multi run_pipeline_def)
  from finish_pipeline_step [of e cmds ?rs ?ws hs s2] obtain F where
    F: "trace (finish_pipeline e cmds ?rs ?ws hs s2)
          = trace s2 @ map CloseHandle ?rs @ map CloseHandle ?ws @ F" by blast
  have "trace (execute_pipeline e cmds s)
        = trace s @ (map (\<lambda>p. CreatePipe (Some p)) ?P @ evs
            @ (evs' @ map CloseHandle ?rs @ map CloseHandle ?ws @ F))"
    using res F first(1) e' by simp
  then have "new_events s (execute_pipeline e cmds s)
        = map (\<lambda>p. CreatePipe (Some p)) ?P @ evs
            @ (evs' @ map CloseHandle ?rs @ map CloseHandle ?ws @ F)"
    by (rule new_events_append)
  then have "launch_attempts (new_events s (execute_pipeline e cmds s))
        = si # launch_attempts (evs' @ map CloseHandle ?rs @ map CloseHandle ?ws @ F)"
    by (simp only: projections_append projections_pipes first(2)) simp
  then show ?thesis using first(3) by simp
qed

text \<open>The single-command path tests the handle and reports the file.\<close>

lemma execute_command_missing_input:
  assumes "args cmd \<noteq> []" and "input_file cmd \<noteq> []" and "\<not> open_read_ok e (input_file cmd)"
  shows "execute_command e cmd s
           = emit [CreateFileA (input_file cmd) READ_OPEN_EXISTING INVALID_HANDLE_VALUE,
                   Stderr (''Error: Cannot open input file '' @ input_file cmd @ nl)] s"
  using assms by (simp add: execute_command_def create_file_def emit_def)

text \<open>Flags and file names that the pipeline path does not read.\<close>

lemma last_map2:
  assumes "length xs = length cmds" and "cmds \<noteq> []"
  shows "last (map2 g cmds xs) = g (last cmds) (last xs)"
proof -
  from assms have ne: "xs \<noteq> []" "map2 g cmds xs \<noteq> []" by auto
  from assms have len: "length (map2 g cmds xs) = length cmds" by simp
  from assms have "length cmds - 1 < length cmds" by (cases cmds) simp_all
  then have "map2 g cmds xs ! (length cmds - 1)
           = g (cmds ! (length cmds - 1)) (xs ! (length cmds - 1))"
    using assms(1) by simp
  then show ?thesis
    using assms ne by (simp add: last_conv_nth len)
qed


lemma same_but_input:
  assumes "length fs = length cmds" and "fs ! 0 = input_file (cmds ! 0)" and "2 \<le> length cmds"
  shows "same_for_pipeline cmds (map2 (\<lambda>c f. c\<lparr>input_file := f\<rparr>) cmds fs)"
proof -
  let ?g = "\<lambda>c f. c\<lparr>input_file := f\<rparr>"
  have a: "map args (map2 ?g cmds fs) = map args cmds"
    using assms(1) by (intro nth_equalityI) simp_all
  from assms have z: "0 < length cmds" "0 < length fs" "cmds \<noteq> []" by auto
  have i: "input_file (map2 ?g cmds fs ! 0) = input_file (cmds ! 0)" using z assms(2) by simp
  note l = last_map2 [OF assms(1) z(3), of ?g]
  show ?thesis unfolding same_for_pipeline_def l using assms a i by simp
qed







text \<open>An \<^verbatim>\<open>&\<close> between two \<^verbatim>\<open>|\<close> with no argument is kept for the stage that follows,
  because a \<^verbatim>\<open>|\<close> resets the stage under construction only when it has an argument.\<close>

lemma ampersand_in_empty_stage:
  "map args (parse_input ''a | & | b'') = [[''a''], [''b'']]
   \<and> map background (parse_input ''a | & | b'') = [False, True]"
  by code_simp

section \<open>The claims on pipelines\<close>

text \<open>
  Claim C1. A pipeline of \<open>N \<ge> 2\<close> stages. When every \<^verbatim>\<open>CreatePipe\<close> succeeds, exactly
  \<open>N - 1\<close> pipes are created, all \<open>N\<close> launches are attempted before any pipe handle is
  closed, and among the handles closed by \<^verbatim>\<open>execute_pipeline\<close> the read end and the
  write end of every pipe occur exactly once. When the \<open>m\<close>-th \<^verbatim>\<open>CreatePipe\<close> is the first
  to fail, the function prints the message and returns at once: the \<open>m\<close> pipes created
  before are in the trace, no stage is launched and no handle is closed, so both ends of
  each of these \<open>m\<close> pipes stay open in the shell. The claim's last clause does not hold of
  the code.
\<close>

theorem pipes_closed_unless_creation_fails:
  assumes n: "2 \<le> length cmds"
  shows "((\<forall>k<length cmds - 1. pipe_ok e k) \<longrightarrow>
            created_pipes (new_events s (execute_pipeline e cmds s))
              = fresh_pipes (next_handle s) (length cmds - 1)
          \<and> length (created_pipes (new_events s (execute_pipeline e cmds s))) = length cmds - 1
          \<and> (\<forall>p\<in>set (created_pipes (new_events s (execute_pipeline e cmds s))).
                count_list (closed_handles (new_events s (execute_pipeline e cmds s))) (fst p) = 1
              \<and> count_list (closed_handles (new_events s (execute_pipeline e cmds s))) (snd p) = 1)
          \<and> (\<exists>L R. new_events s (execute_pipeline e cmds s)
                      = map (\<lambda>p. CreatePipe (Some p))
                          (created_pipes (new_events s (execute_pipeline e cmds s))) @ L @ R
                \<and> length (launch_attempts L) = length cmds \<and> launch_attempts R = []
                \<and> (\<forall>p\<in>set (created_pipes (new_events s (execute_pipeline e cmds s))).
                      fst p \<notin> set (closed_handles L) \<and> snd p \<notin> set (closed_handles L))))
       \<and> (\<forall>m. m < length cmds - 1 \<and> (\<forall>k<m. pipe_ok e k) \<and> \<not> pipe_ok e m \<longrightarrow>
            execute_pipeline e cmds s
              = s\<lparr>next_handle := next_handle s + 2 * m,
                  trace := trace s
                    @ map (\<lambda>p. CreatePipe (Some p)) (fresh_pipes (next_handle s) m)
                    @ [CreatePipe None, Stderr (''Error: Cannot create pipe'' @ nl)]\<rparr>
          \<and> created_pipes (new_events s (execute_pipeline e cmds s))
              = fresh_pipes (next_handle s) m
          \<and> closed_handles (new_events s (execute_pipeline e cmds s)) = []
          \<and> launch_attempts (new_events s (execute_pipeline e cmds s)) = [])"
proof (intro conjI impI allI)
  assume ok: "\<forall>k<length cmds - 1. pipe_ok e k"
  note ev = pipeline_events [OF n ok, of s]
  show cp: "created_pipes (new_events s (execute_pipeline e cmds s))
              = fresh_pipes (next_handle s) (length cmds - 1)" by (rule ev(1))
  show "length (created_pipes (new_events s (execute_pipeline e cmds s))) = length cmds - 1"
    by (simp add: cp length_fresh_pipes)
  show "\<forall>p\<in>set (created_pipes (new_events s (execute_pipeline e cmds s))).
                count_list (closed_handles (new_events s (execute_pipeline e cmds s))) (fst p) = 1
              \<and> count_list (closed_handles (new_events s (execute_pipeline e cmds s))) (snd p) = 1"
    unfolding cp by (rule ev(7))
  show "\<exists>L R. new_events s (execute_pipeline e cmds s)
                      = map (\<lambda>p. CreatePipe (Some p))
                          (created_pipes (new_events s (execute_pipeline e cmds s))) @ L @ R
                \<and> length (launch_attempts L) = length cmds \<and> launch_attempts R = []
                \<and> (\<forall>p\<in>set (created_pipes (new_events s (execute_pipeline e cmds s))).
                      fst p \<notin> set (closed_handles L) \<and> snd p \<notin> set (closed_handles L))"
    unfolding cp by (rule ev(8))
next
  fix m
  assume a: "m < length cmds - 1 \<and> (\<forall>k<m. pipe_ok e k) \<and> \<not> pipe_ok e m"
  then have m: "m < length cmds - 1" and ok: "\<forall>k<m. pipe_ok e k" and bad: "\<not> pipe_ok e m"
    by simp_all
  show res: "execute_pipeline e cmds s
              = s\<lparr>next_handle := next_handle s + 2 * m,
                  trace := trace s
                    @ map (\<lambda>p. CreatePipe (Some p)) (fresh_pipes (next_handle s) m)
                    @ [CreatePipe None, Stderr (''Error: Cannot create pipe'' @ nl)]\<rparr>"
    by (rule pipeline_pipe_failure [OF n m ok bad])
  have new: "new_events s (execute_pipeline e cmds s)
       = map (\<lambda>p. CreatePipe (Some p)) (fresh_pipes (next_handle s) m)
         @ [CreatePipe None, Stderr (''Error: Cannot create pipe'' @ nl)]"
    by (rule new_events_append) (simp add: res)
  show "created_pipes (new_events s (execute_pipeline e cmds s)) = fresh_pipes (next_handle s) m"
    unfolding new by (simp add: projections projections_pipes)
  show "closed_handles (new_events s (execute_pipeline e cmds s)) = []"
    unfolding new by (simp add: projections projections_pipes)
  show "launch_attempts (new_events s (execute_pipeline e cmds s)) = []"
    unfolding new by (simp add: projections projections_pipes)
qed

theorem pipes_closed_unless_creation_fails_witness:
  "created_pipes (new_events WindowsShell
       (execute_pipeline env_second_pipe_fails (parse_input ''a | b | c'') WindowsShell))
     = [(H 0, H 1)]
   \<and> closed_handles (new_events WindowsShell
       (execute_pipeline env_second_pipe_fails (parse_input ''a | b | c'') WindowsShell)) = []
   \<and> launch_attempts (new_events WindowsShell
       (execute_pipeline env_second_pipe_fails (parse_input ''a | b | c'') WindowsShell)) = []
   \<and> created_pipes (new_events WindowsShell
       (execute_pipeline env_ok (parse_input ''a | b | c'') WindowsShell))
     = [(H 0, H 1), (H 2, H 3)]
   \<and> count_list (closed_handles (new_events WindowsShell
       (execute_pipeline env_ok (parse_input ''a | b | c'') WindowsShell))) (H 0) = 1
   \<and> count_list (closed_handles (new_events WindowsShell
       (execute_pipeline env_ok (parse_input ''a | b | c'') WindowsShell))) (H 1) = 1"
proof -
  have n: "2 \<le> length (parse_input ''a | b | c'')" by code_simp
  have fail: "1 < length (parse_input ''a | b | c'') - 1
      \<and> (\<forall>k<1. pipe_ok env_second_pipe_fails k) \<and> \<not> pipe_ok env_second_pipe_fails 1"
    by (simp add: env_second_pipe_fails_def env_ok_def) code_simp
  have ok: "\<forall>k<length (parse_input ''a | b | c'') - 1. pipe_ok env_ok k"
    by (simp add: env_ok_def)
  have f1: "fresh_pipes (next_handle WindowsShell) 1 = [(H 0, H 1)]" by code_simp
  have f2: "fresh_pipes (next_handle WindowsShell) (length (parse_input ''a | b | c'') - 1)
      = [(H 0, H 1), (H 2, H 3)]" by code_simp
  note bad = pipes_closed_unless_creation_fails
    [OF n, of env_second_pipe_fails WindowsShell, THEN conjunct2, rule_format, OF fail]
  note good = pipes_closed_unless_creation_fails
    [OF n, of env_ok WindowsShell, THEN conjunct1, THEN mp, OF ok]
  have b1: "created_pipes (new_events WindowsShell
       (execute_pipeline env_second_pipe_fails (parse_input ''a | b | c'') WindowsShell))
     = [(H 0, H 1)]"
    using bad [THEN conjunct2, THEN conjunct1] by (simp only: f1)
  have b2: "closed_handles (new_events WindowsShell
       (execute_pipeline env_second_pipe_fails (parse_input ''a | b | c'') WindowsShell)) = []"
    by (rule bad [THEN conjunct2, THEN conjunct2, THEN conjunct1])
  have b3: "launch_attempts (new_events WindowsShell
       (execute_pipeline env_second_pipe_fails (parse_input ''a | b | c'') WindowsShell)) = []"
    by (rule bad [THEN conjunct2, THEN conjunct2, THEN conjunct2])
  have g1: "created_pipes (new_events WindowsShell
       (execute_pipeline env_ok (parse_input ''a | b | c'') WindowsShell))
     = [(H 0, H 1), (H 2, H 3)]"
    using good [THEN conjunct1] by (simp only: f2)
  have "(H 0, H 1) \<in> set (created_pipes (new_events WindowsShell
       (execute_pipeline env_ok (parse_input ''a | b | c'') WindowsShell)))"
    by (simp add: g1)
  from good [THEN conjunct2, THEN conjunct2, THEN conjunct1, rule_format, OF this]
  have g2: "count_list (closed_handles (new_events WindowsShell
       (execute_pipeline env_ok (parse_input ''a | b | c'') WindowsShell))) (H 0) = 1"
    and g3: "count_list (closed_handles (new_events WindowsShell
       (execute_pipeline env_ok (parse_input ''a | b | c'') WindowsShell))) (H 1) = 1"
    by simp_all
  show ?thesis by (intro conjI b1 b2 b3 g1 g2 g3)
qed

text \<open>
  Claim C2. A pipeline of two or more stages whose first stage has an input file that
  cannot be opened, every pipe being created (in the source's own syntax the line is
  \<^verbatim>\<open>cat < missing.txt | sort\<close>; in \<^verbatim>\<open>cat missing.txt | sort\<close> the name is an argument of
  \<^verbatim>\<open>cat\<close> and the shell opens nothing). The pipeline path calls \<^verbatim>\<open>CreateFileA\<close> on the
  file and does not test the result: the first stage is launched with
  \<^verbatim>\<open>INVALID_HANDLE_VALUE\<close> as its standard input, the only error messages are those of
  failed launches, and the message \<^verbatim>\<open>Error: Cannot open input file\<close> is not among them. As
  claimed, every stage is still attempted, the second one reading from the first pipe,
  and the shell waits on exactly the processes launched. The single-command path, on the
  same stage, reports the file and launches nothing.
\<close>

theorem pipeline_input_open_unchecked:
  assumes n: "2 \<le> length cmds" and ok: "\<forall>k<length cmds - 1. pipe_ok e k"
    and inp: "input_file (cmds ! 0) \<noteq> []"
    and missing: "\<not> open_read_ok e (input_file (cmds ! 0))"
  shows "opened_for_reading (new_events s (execute_pipeline e cmds s)) = [input_file (cmds ! 0)]
       \<and> hStdInput (launch_attempts (new_events s (execute_pipeline e cmds s)) ! 0)
           = INVALID_HANDLE_VALUE
       \<and> (\<forall>msg\<in>set (error_messages (new_events s (execute_pipeline e cmds s))).
             \<exists>x. msg = ''Error: Cannot execute '' @ x @ nl)
       \<and> ''Error: Cannot open input file '' @ input_file (cmds ! 0) @ nl
           \<notin> set (error_messages (new_events s (execute_pipeline e cmds s)))
       \<and> length (launch_attempts (new_events s (execute_pipeline e cmds s))) = length cmds
       \<and> hStdInput (launch_attempts (new_events s (execute_pipeline e cmds s)) ! 1)
           = fst (created_pipes (new_events s (execute_pipeline e cmds s)) ! 0)
       \<and> waited_on (new_events s (execute_pipeline e cmds s))
           = (if background (last cmds)
                 \<or> launched_processes (new_events s (execute_pipeline e cmds s)) = [] then []
              else [launched_processes (new_events s (execute_pipeline e cmds s))])
       \<and> (args (cmds ! 0) \<noteq> [] \<longrightarrow>
            execute_command e (cmds ! 0) s
              = emit [CreateFileA (input_file (cmds ! 0)) READ_OPEN_EXISTING INVALID_HANDLE_VALUE,
                      Stderr (''Error: Cannot open input file '' @ input_file (cmds ! 0) @ nl)] s)"
proof (intro conjI impI)
  note ev = pipeline_events [OF n ok, of s]
  show "opened_for_reading (new_events s (execute_pipeline e cmds s)) = [input_file (cmds ! 0)]"
    using ev(4) inp by simp
  show "hStdInput (launch_attempts (new_events s (execute_pipeline e cmds s)) ! 0)
           = INVALID_HANDLE_VALUE"
    using first_stage_input [OF n ok, of s] inp missing by simp
  show msgs: "\<forall>msg\<in>set (error_messages (new_events s (execute_pipeline e cmds s))).
             \<exists>x. msg = ''Error: Cannot execute '' @ x @ nl" by (rule ev(6))
  show "''Error: Cannot open input file '' @ input_file (cmds ! 0) @ nl
           \<notin> set (error_messages (new_events s (execute_pipeline e cmds s)))"
  proof
    assume mem: "''Error: Cannot open input file '' @ input_file (cmds ! 0) @ nl
           \<in> set (error_messages (new_events s (execute_pipeline e cmds s)))"
    from bspec [OF msgs mem] obtain x where
      "''Error: Cannot open input file '' @ input_file (cmds ! 0) @ nl
         = ''Error: Cannot execute '' @ x @ nl" ..
    then show False by simp
  qed
  show "length (launch_attempts (new_events s (execute_pipeline e cmds s))) = length cmds"
    by (rule ev(2))
  from n have one: "1 < length cmds" by simp
  from ev(3) [rule_format, OF one, THEN conjunct1]
  have "hStdInput (launch_attempts (new_events s (execute_pipeline e cmds s)) ! 1)
      = fst (fresh_pipes (next_handle s) (length cmds - 1) ! (1 - 1))" by simp
  then show "hStdInput (launch_attempts (new_events s (execute_pipeline e cmds s)) ! 1)
           = fst (created_pipes (new_events s (execute_pipeline e cmds s)) ! 0)"
    by (simp add: ev(1))
  show "waited_on (new_events s (execute_pipeline e cmds s))
           = (if background (last cmds)
                 \<or> launched_processes (new_events s (execute_pipeline e cmds s)) = [] then []
              else [launched_processes (new_events s (execute_pipeline e cmds s))])"
    by (rule ev(5))
next
  assume "args (cmds ! 0) \<noteq> []"
  then show "execute_command e (cmds ! 0) s
              = emit [CreateFileA (input_file (cmds ! 0)) READ_OPEN_EXISTING INVALID_HANDLE_VALUE,
                      Stderr (''Error: Cannot open input file '' @ input_file (cmds ! 0) @ nl)] s"
    using inp missing by (rule execute_command_missing_input)
qed

theorem pipeline_input_open_unchecked_witness:
  "map args (parse_input ''cat < missing.txt | sort'') = [[''cat''], [''sort'']]
   \<and> map input_file (parse_input ''cat < missing.txt | sort'') = [''missing.txt'', []]
   \<and> opened_for_reading (new_events WindowsShell
       (execute_pipeline env_no_file (parse_input ''cat < missing.txt | sort'') WindowsShell))
       = [''missing.txt'']
   \<and> hStdInput (launch_attempts (new_events WindowsShell
       (execute_pipeline env_no_file (parse_input ''cat < missing.txt | sort'') WindowsShell)) ! 0)
       = INVALID_HANDLE_VALUE
   \<and> length (launch_attempts (new_events WindowsShell
       (execute_pipeline env_no_file (parse_input ''cat < missing.txt | sort'') WindowsShell))) = 2
   \<and> error_messages (new_events WindowsShell
       (execute_pipeline env_no_file (parse_input ''cat < missing.txt | sort'') WindowsShell)) = []
   \<and> waited_on (new_events WindowsShell
       (execute_pipeline env_no_file (parse_input ''cat < missing.txt | sort'') WindowsShell))
       = [[H 2, H 4]]
   \<and> error_messages (new_events WindowsShell
       (execute_command env_no_file (parse_input ''cat < missing.txt | sort'' ! 0) WindowsShell))
       = [''Error: Cannot open input file missing.txt'' @ nl]
   \<and> map input_file (parse_input ''cat missing.txt | sort'') = [[], []]"
proof -
  have n: "2 \<le> length (parse_input ''cat < missing.txt | sort'')" by code_simp
  have ok: "\<forall>k<length (parse_input ''cat < missing.txt | sort'') - 1. pipe_ok env_no_file k"
    by (simp add: env_no_file_def env_ok_def)
  have inp: "input_file (parse_input ''cat < missing.txt | sort'' ! 0) \<noteq> []" by code_simp
  have missing: "\<not> open_read_ok env_no_file
      (input_file (parse_input ''cat < missing.txt | sort'' ! 0))"
    by (simp add: env_no_file_def)
  note t = pipeline_input_open_unchecked [OF n ok inp missing, of WindowsShell]
  have p1: "map args (parse_input ''cat < missing.txt | sort'') = [[''cat''], [''sort'']]"
    by code_simp
  have p2: "map input_file (parse_input ''cat < missing.txt | sort'') = [''missing.txt'', []]"
    by code_simp
  have i0: "input_file (parse_input ''cat < missing.txt | sort'' ! 0) = ''missing.txt''"
    by code_simp
  have len: "length (parse_input ''cat < missing.txt | sort'') = 2" by code_simp
  have a: "opened_for_reading (new_events WindowsShell
       (execute_pipeline env_no_file (parse_input ''cat < missing.txt | sort'') WindowsShell))
       = [''missing.txt'']"
    using t [THEN conjunct1] by (simp only: i0)
  have b: "hStdInput (launch_attempts (new_events WindowsShell
       (execute_pipeline env_no_file (parse_input ''cat < missing.txt | sort'') WindowsShell)) ! 0)
       = INVALID_HANDLE_VALUE"
    by (rule t [THEN conjunct2, THEN conjunct1])
  have c: "length (launch_attempts (new_events WindowsShell
       (execute_pipeline env_no_file (parse_input ''cat < missing.txt | sort'') WindowsShell))) = 2"
    using t [THEN conjunct2, THEN conjunct2, THEN conjunct2, THEN conjunct2, THEN conjunct1]
    by (simp only: len)
  have d: "error_messages (new_events WindowsShell
       (execute_pipeline env_no_file (parse_input ''cat < missing.txt | sort'') WindowsShell)) = []"
    by code_simp
  have w: "waited_on (new_events WindowsShell
       (execute_pipeline env_no_file (parse_input ''cat < missing.txt | sort'') WindowsShell))
       = [[H 2, H 4]]"
    by code_simp
  have s: "error_messages (new_events WindowsShell
       (execute_command env_no_file (parse_input ''cat < missing.txt | sort'' ! 0) WindowsShell))
       = [''Error: Cannot open input file missing.txt'' @ nl]"
    by code_simp
  have q: "map input_file (parse_input ''cat missing.txt | sort'') = [[], []]" by code_simp
  show ?thesis by (intro conjI p1 p2 a b c d w s q)
qed



text \<open>
  Claim C6. The parser stores the file name after \<^verbatim>\<open><\<close> in the stage under
  construction, whichever stage that is: in \<^verbatim>\<open>a | b < f\<close> the second stage has the
  input file \<^verbatim>\<open>f\<close>, so a stage other than the first can carry one.
\<close>

theorem input_file_on_later_stage_counterexample:
  "map args (parse_input ''a | b < f'') = [[''a''], [''b'']]
   \<and> map input_file (parse_input ''a | b < f'') = [[], ''f'']"
  by code_simp

text \<open>
  Claim C6, as the code has it. In a pipeline of two or more stages whose pipes are all
  created there is one launch attempt per stage and one pipe per pair of neighbours;
  stage \<open>i > 0\<close> is launched with the read end of pipe \<open>i - 1\<close> as its standard input and
  stage \<open>i - 1\<close> with the write end of that pipe as its standard output. The only file
  opened for reading is the input file of the first stage, which becomes the standard
  input of that stage (the console when it has none). The input files that the parser
  stored in later stages are never read: replacing them by any names leaves the result
  of \<^verbatim>\<open>execute_pipeline\<close> unchanged.
\<close>

theorem later_stages_read_from_pipes:
  assumes n: "2 \<le> length cmds"
  shows "((\<forall>k<length cmds - 1. pipe_ok e k) \<longrightarrow>
            length (launch_attempts (new_events s (execute_pipeline e cmds s))) = length cmds
          \<and> length (created_pipes (new_events s (execute_pipeline e cmds s))) = length cmds - 1
          \<and> (\<forall>i. 0 < i \<and> i < length cmds \<longrightarrow>
                hStdInput (launch_attempts (new_events s (execute_pipeline e cmds s)) ! i)
                  = fst (created_pipes (new_events s (execute_pipeline e cmds s)) ! (i - 1))
              \<and> hStdOutput (launch_attempts (new_events s (execute_pipeline e cmds s)) ! (i - 1))
                  = snd (created_pipes (new_events s (execute_pipeline e cmds s)) ! (i - 1)))
          \<and> opened_for_reading (new_events s (execute_pipeline e cmds s))
              = (if input_file (cmds ! 0) \<noteq> [] then [input_file (cmds ! 0)] else [])
          \<and> hStdInput (launch_attempts (new_events s (execute_pipeline e cmds s)) ! 0)
              = (if input_file (cmds ! 0) = [] then STD_INPUT
                 else if open_read_ok e (input_file (cmds ! 0))
                   then H (next_handle s + 2 * (length cmds - 1))
                 else INVALID_HANDLE_VALUE))
       \<and> (\<forall>fs. length fs = length cmds \<and> fs ! 0 = input_file (cmds ! 0) \<longrightarrow>
            execute_pipeline e (map2 (\<lambda>c f. c\<lparr>input_file := f\<rparr>) cmds fs) s
              = execute_pipeline e cmds s)"
proof (intro conjI impI allI)
  assume ok: "\<forall>k<length cmds - 1. pipe_ok e k"
  note ev = pipeline_events [OF n ok, of s]
  show "length (launch_attempts (new_events s (execute_pipeline e cmds s))) = length cmds"
    by (rule ev(2))
  show "length (created_pipes (new_events s (execute_pipeline e cmds s))) = length cmds - 1"
    by (simp add: ev(1) length_fresh_pipes)
  show "opened_for_reading (new_events s (execute_pipeline e cmds s))
              = (if input_file (cmds ! 0) \<noteq> [] then [input_file (cmds ! 0)] else [])"
    by (rule ev(4))
  show "hStdInput (launch_attempts (new_events s (execute_pipeline e cmds s)) ! 0)
              = (if input_file (cmds ! 0) = [] then STD_INPUT
                 else if open_read_ok e (input_file (cmds ! 0))
                   then H (next_handle s + 2 * (length cmds - 1))
                 else INVALID_HANDLE_VALUE)"
    by (rule first_stage_input [OF n ok])
  fix i
  assume "0 < i \<and> i < length cmds"
  then have pos: "0 < i" and i: "i < length cmds" by simp_all
  from ev(3) i pos
  show "hStdInput (launch_attempts (new_events s (execute_pipeline e cmds s)) ! i)
                  = fst (created_pipes (new_events s (execute_pipeline e cmds s)) ! (i - 1))"
    unfolding ev(1) by blast
  from pos i have "i - 1 < length cmds" "i - 1 < length cmds - 1" by simp_all
  with ev(3)
  show "hStdOutput (launch_attempts (new_events s (execute_pipeline e cmds s)) ! (i - 1))
                  = snd (created_pipes (new_events s (execute_pipeline e cmds s)) ! (i - 1))"
    unfolding ev(1) by blast
next
  fix fs
  assume "length fs = length cmds \<and> fs ! 0 = input_file (cmds ! 0)"
  then have len: "length fs = length cmds" and f: "fs ! 0 = input_file (cmds ! 0)"
    by simp_all
  from same_but_input [OF len f n]
  show "execute_pipeline e (map2 (\<lambda>c f. c\<lparr>input_file := f\<rparr>) cmds fs) s
          = execute_pipeline e cmds s"
    using n by (rule pipeline_reads_only)
qed

theorem later_stages_read_from_pipes_witness:
  "created_pipes (new_events WindowsShell
       (execute_pipeline env_ok (parse_input ''a | b < f'') WindowsShell)) = [(H 0, H 1)]
   \<and> hStdInput (launch_attempts (new_events WindowsShell
       (execute_pipeline env_ok (parse_input ''a | b < f'') WindowsShell)) ! 1) = H 0
   \<and> hStdOutput (launch_attempts (new_events WindowsShell
       (execute_pipeline env_ok (parse_input ''a | b < f'') WindowsShell)) ! 0) = H 1
   \<and> opened_for_reading (new_events WindowsShell
       (execute_pipeline env_ok (parse_input ''a | b < f'') WindowsShell)) = []
   \<and> hStdInput (launch_attempts (new_events WindowsShell
       (execute_pipeline env_ok (parse_input ''a | b < f'') WindowsShell)) ! 0) = STD_INPUT
   \<and> execute_pipeline env_ok (parse_input ''a | b < f'') WindowsShell
       = execute_pipeline env_ok (parse_input ''a | b'') WindowsShell"
proof -
  have n: "2 \<le> length (parse_input ''a | b < f'')" by code_simp
  have ok: "\<forall>k<length (parse_input ''a | b < f'') - 1. pipe_ok env_ok k"
    by (simp add: env_ok_def)
  note t = later_stages_read_from_pipes [OF n, of env_ok WindowsShell]
  note g = t [THEN conjunct1, THEN mp, OF ok]
  have cp: "created_pipes (new_events WindowsShell
       (execute_pipeline env_ok (parse_input ''a | b < f'') WindowsShell)) = [(H 0, H 1)]"
    by code_simp
  have i0: "input_file (parse_input ''a | b < f'' ! 0) = []" by code_simp
  have one: "0 < (1::nat) \<and> 1 < length (parse_input ''a | b < f'')"
    by (simp, code_simp)
  note io = g [THEN conjunct2, THEN conjunct2, THEN conjunct1, rule_format, OF one]
  have a: "hStdInput (launch_attempts (new_events WindowsShell
       (execute_pipeline env_ok (parse_input ''a | b < f'') WindowsShell)) ! 1) = H 0"
    using io [THEN conjunct1] by (simp add: cp)
  have b: "hStdOutput (launch_attempts (new_events WindowsShell
       (execute_pipeline env_ok (parse_input ''a | b < f'') WindowsShell)) ! 0) = H 1"
    using io [THEN conjunct2] by (simp add: cp)
  have c: "opened_for_reading (new_events WindowsShell
       (execute_pipeline env_ok (parse_input ''a | b < f'') WindowsShell)) = []"
    using g [THEN conjunct2, THEN conjunct2, THEN conjunct2, THEN conjunct1] by (simp add: i0)
  have d: "hStdInput (launch_attempts (new_events WindowsShell
       (execute_pipeline env_ok (parse_input ''a | b < f'') WindowsShell)) ! 0) = STD_INPUT"
    using g [THEN conjunct2, THEN conjunct2, THEN conjunct2, THEN conjunct2] by (simp add: i0)
  have fs: "length [[], []] = length (parse_input ''a | b < f'')
      \<and> [[], []] ! 0 = input_file (parse_input ''a | b < f'' ! 0)" by code_simp
  have m: "map2 (\<lambda>c f. c\<lparr>input_file := f\<rparr>) (parse_input ''a | b < f'') [[], []]
      = parse_input ''a | b''" by code_simp
  have same: "execute_pipeline env_ok (parse_input ''a | b < f'') WindowsShell
       = execute_pipeline env_ok (parse_input ''a | b'') WindowsShell"
    using t [THEN conjunct2, rule_format, OF fs] by (simp only: m)
  show ?thesis by (intro conjI cp a b c d same)
qed


end
